(* ===== verification/Go_Prelude.thy ===== *)
theory Go_Prelude
  imports Main "HOL-Library.Char_ord" "HOL-Library.List_Lexorder" "HOL-Library.Multiset"
begin

text \<open>
  What every component of the model shares: Go's strings as byte strings with the operations of
  the packages strings, sort and slices the program calls, and Go's error values.

  \<^item> A Go string is a sequence of bytes: a \<^typ>\<open>string\<close>, that is a list of 8-bit characters,
    compared bytewise (the lexicographic order of List_Lexorder over the byte order of
    Char_ord), which is what sort.Strings uses.
  \<^item> A Go error is a value of \<open>go_error\<close>; a function returning (T, error) returns
    \<open>go_error + T\<close>, with \<open>Inl\<close> for a non-nil error.
\<close>

named_theorems go_defs \<open>definitions of the small operations of the model, to unfold\<close>

section \<open>Errors\<close>

text \<open>
  \<open>Errorf msg\<close> is an error made by errors.New or fmt.Errorf, with its rendered text;
  \<open>StatusCodeError e sc\<close> is the authorizer's StatusCodeError, an error with an HTTP status.
\<close>

datatype go_error = Errorf string | StatusCodeError go_error nat

text \<open>The method Error(): the embedded error supplies the text of a StatusCodeError.\<close>

fun Error :: "go_error \<Rightarrow> string" where
  "Error (Errorf msg) = msg"
| "Error (StatusCodeError e sc) = Error e"

text \<open>The type assertion err.(StatusCoder) followed by StatusCode().\<close>

fun StatusCode :: "go_error \<Rightarrow> nat option" where
  "StatusCode (Errorf msg) = None"
| "StatusCode (StatusCodeError e sc) = Some sc"

text \<open>fmt.Errorf with a format "prefix: %w": the prefix, a colon and the wrapped error's text.\<close>

definition wrapf :: "string \<Rightarrow> go_error \<Rightarrow> go_error" where
  "wrapf prefix e = Errorf (prefix @ '': '' @ Error e)"

lemma StatusCode_wrapf [simp]: "StatusCode (wrapf p e) = None"
  by (simp add: wrapf_def)

section \<open>Package strings\<close>

text \<open>strings.Split for a separator of one byte.\<close>

fun split :: "char \<Rightarrow> string \<Rightarrow> string list" where
  "split c [] = [[]]"
| "split c (x # xs) =
     (if x = c then [] # split c xs
      else (case split c xs of [] \<Rightarrow> [[x]] | y # ys \<Rightarrow> (x # y) # ys))"

text \<open>strings.Join.\<close>

fun join :: "string \<Rightarrow> string list \<Rightarrow> string" where
  "join sep [] = []"
| "join sep [x] = x"
| "join sep (x # y # ys) = x @ sep @ join sep (y # ys)"

text \<open>strings.HasPrefix and strings.Contains.\<close>

fun hasPrefix :: "string \<Rightarrow> string \<Rightarrow> bool" where
  "hasPrefix s [] = True"
| "hasPrefix [] (p # ps) = False"
| "hasPrefix (c # cs) (p # ps) = (c = p \<and> hasPrefix cs ps)"

fun contains :: "string \<Rightarrow> string \<Rightarrow> bool" where
  "contains [] sub = (sub = [])"
| "contains (c # cs) sub = (hasPrefix (c # cs) sub \<or> contains cs sub)"

text \<open>strings.ReplaceAll for one byte by one byte.\<close>

definition replaceAll :: "string \<Rightarrow> char \<Rightarrow> char \<Rightarrow> string" where
  "replaceAll s a b = map (\<lambda>c. if c = a then b else c) s"

section \<open>Packages slices, maps and sort\<close>

text \<open>slices.Index: the index of the first occurrence, -1 when there is none.\<close>

fun slices_Index :: "'a list \<Rightarrow> 'a \<Rightarrow> int" where
  "slices_Index [] v = - 1"
| "slices_Index (x # xs) v =
     (if x = v then 0 else (let i = slices_Index xs v in if i = - 1 then - 1 else i + 1))"

text \<open>slices.Delete(s, i, j): the elements at i..j-1 are removed.\<close>

definition slices_Delete :: "'a list \<Rightarrow> nat \<Rightarrow> nat \<Rightarrow> 'a list" where
  "slices_Delete xs i j = take i xs @ drop j xs"

text \<open>sort.Strings.\<close>

definition sort_Strings :: "string list \<Rightarrow> string list" where
  "sort_Strings xs = sort xs"

section \<open>Lemmas on strings\<close>

lemma split_not_Nil [simp]: "split c s \<noteq> []"
  by (cases "(c, s)" rule: split.cases) (auto split: list.splits)

lemma split_notin: "c \<notin> set s \<Longrightarrow> split c s = [s]"
  by (induction s) auto

lemma split_append_sep:
  "c \<notin> set x \<Longrightarrow> split c (x @ c # rest) = x # split c rest"
  by (induction x) auto

lemma split_parts_notin: "p \<in> set (split c s) \<Longrightarrow> c \<notin> set p"
  by (induction c s arbitrary: p rule: split.induct) (auto split: list.splits if_splits)

lemma split_join:
  "xs \<noteq> [] \<Longrightarrow> (\<And>x. x \<in> set xs \<Longrightarrow> c \<notin> set x) \<Longrightarrow> split c (join [c] xs) = xs"
  by (induction xs rule: induct_list012) (auto simp: split_notin split_append_sep)

lemma join_Cons: "join sep (x # xs) = (if xs = [] then x else x @ sep @ join sep xs)"
  by (cases xs) auto

lemma join_split: "join [c] (split c s) = s"
proof (induction c s rule: split.induct)
  case (2 c x xs)
  then show ?case
    by (cases "split c xs") (auto simp: join_Cons)
qed simp

lemma set_join: "set (join sep xs) \<subseteq> \<Union> (set ` set xs) \<union> set sep"
  by (induction xs rule: induct_list012) auto

lemma length_join:
  "length (join sep xs) = sum_list (map length xs) + (length xs - 1) * length sep"
  by (induction xs rule: induct_list012) auto

lemma join_eq_Nil: "(\<And>x. x \<in> set xs \<Longrightarrow> x \<noteq> []) \<Longrightarrow> join sep xs = [] \<longleftrightarrow> xs = []"
  by (induction xs rule: induct_list012) auto

text \<open>Joining with a one-byte separator loses nothing when no element holds the separator.\<close>

lemma join_inject:
  assumes "\<And>x. x \<in> set xs \<Longrightarrow> c \<notin> set x \<and> x \<noteq> []"
    and "\<And>y. y \<in> set ys \<Longrightarrow> c \<notin> set y \<and> y \<noteq> []"
    and "join [c] xs = join [c] ys"
  shows "xs = ys"
proof (cases "xs = [] \<or> ys = []")
  case True
  with assms show ?thesis by (metis join.simps(1) join_eq_Nil)
next
  case False
  then show ?thesis using assms by (metis split_join)
qed

text \<open>The first (or last) occurrence of a separator cuts a string in a unique way.\<close>

lemma sep_inject_left:
  "c \<notin> set x \<Longrightarrow> c \<notin> set y \<Longrightarrow> x @ c # r = y @ c # t \<longleftrightarrow> x = y \<and> r = t"
proof (induction x arbitrary: y)
  case Nil
  then show ?case by (cases y) auto
next
  case (Cons a x)
  then show ?case by (cases y) auto
qed

lemma sep_inject_right:
  assumes "c \<notin> set x" "c \<notin> set y"
  shows "r @ c # x = t @ c # y \<longleftrightarrow> r = t \<and> x = y"
proof
  assume "r @ c # x = t @ c # y"
  then have "rev (r @ c # x) = rev (t @ c # y)" by simp
  then have "rev x @ c # rev r = rev y @ c # rev t" by simp
  with assms show "r = t \<and> x = y" by (simp add: sep_inject_left)
qed simp

lemma join_Cons_inject:
  "c \<notin> set x \<Longrightarrow> c \<notin> set y \<Longrightarrow> xs \<noteq> [] \<Longrightarrow> ys \<noteq> [] \<Longrightarrow>
   join [c] (x # xs) = join [c] (y # ys) \<longleftrightarrow> x = y \<and> join [c] xs = join [c] ys"
  by (simp add: join_Cons sep_inject_left)

lemma hasPrefix_iff: "hasPrefix s p \<longleftrightarrow> (\<exists>t. s = p @ t)"
  by (induction s p rule: hasPrefix.induct) auto

lemma contains_iff: "contains s sub \<longleftrightarrow> (\<exists>u v. s = u @ sub @ v)"
proof (induction s sub rule: contains.induct)
  case (2 c cs sub)
  show ?case
  proof
    assume "contains (c # cs) sub"
    then consider "hasPrefix (c # cs) sub" | "contains cs sub" by auto
    then show "\<exists>u v. c # cs = u @ sub @ v"
    proof cases
      case 1
      then show ?thesis by (metis append_Nil hasPrefix_iff)
    next
      case 2
      with "2.IH" show ?thesis by (metis append_Cons)
    qed
  next
    assume "\<exists>u v. c # cs = u @ sub @ v"
    then obtain u v where uv: "c # cs = u @ sub @ v" by blast
    show "contains (c # cs) sub"
    proof (cases u)
      case Nil
      with uv have "hasPrefix (c # cs) sub" by (simp add: hasPrefix_iff)
      then show ?thesis by simp
    next
      case (Cons d u')
      with uv have "cs = u' @ sub @ v" by simp
      with "2.IH" have "contains cs sub" by blast
      then show ?thesis by simp
    qed
  qed
qed simp

lemma length_replaceAll [simp]: "length (replaceAll s a b) = length s"
  by (simp add: replaceAll_def)

lemma replaceAll_idem: "a \<notin> set s \<Longrightarrow> replaceAll s a b = s"
  by (auto simp: replaceAll_def intro!: map_idI)

lemma split_replaceAll:
  "b \<notin> set s \<Longrightarrow> split b (replaceAll s a b) = split a s"
  by (induction s) (auto simp: replaceAll_def split: list.splits)

section \<open>Lemmas on slices\<close>

lemma slices_Index_notin: "slices_Index xs v = - 1 \<longleftrightarrow> v \<notin> set xs"
  and slices_Index_ge: "- 1 \<le> slices_Index xs v"
proof -
  have "(slices_Index xs v = - 1 \<longleftrightarrow> v \<notin> set xs) \<and> - 1 \<le> slices_Index xs v"
    by (induction xs) (auto simp: Let_def)
  then show "slices_Index xs v = - 1 \<longleftrightarrow> v \<notin> set xs" and "- 1 \<le> slices_Index xs v"
    by auto
qed

lemma slices_Index_nth:
  assumes "v \<in> set xs"
  shows "0 \<le> slices_Index xs v \<and> nat (slices_Index xs v) < length xs
    \<and> xs ! nat (slices_Index xs v) = v"
  using assms
proof (induction xs)
  case (Cons x xs)
  show ?case
  proof (cases "x = v")
    case False
    with Cons have "0 \<le> slices_Index xs v \<and> nat (slices_Index xs v) < length xs
        \<and> xs ! nat (slices_Index xs v) = v" by auto
    with False show ?thesis by (auto simp: Let_def nat_add_distrib)
  qed simp
qed simp

text \<open>Deleting at the index found is removing the first occurrence.\<close>

lemma slices_Delete_Index:
  "v \<in> set xs \<Longrightarrow>
   slices_Delete xs (nat (slices_Index xs v)) (nat (slices_Index xs v + 1)) = remove1 v xs"
proof (induction xs)
  case (Cons x xs)
  show ?case
  proof (cases "x = v")
    case False
    with Cons have v: "v \<in> set xs" by simp
    from slices_Index_nth [OF v] have ge: "0 \<le> slices_Index xs v" by simp
    then have "slices_Index xs v \<noteq> - 1" by simp
    with False ge Cons.IH [OF v] show ?thesis
      by (simp add: Let_def slices_Delete_def nat_add_distrib)
  qed (simp add: slices_Delete_def)
qed simp

lemma length_concat_remove1:
  "v \<in> set xs \<Longrightarrow> length (concat (remove1 v xs)) + length v = length (concat xs)"
  by (induction xs) auto

lemma sort_Strings_simps [simp]:
  "set (sort_Strings xs) = set xs"
  "length (sort_Strings xs) = length xs"
  "sort_Strings (sort_Strings xs) = sort_Strings xs"
  by (simp_all add: sort_Strings_def sorted_sort_id)

lemma length_concat_sort: "length (concat (sort_Strings xs)) = length (concat xs)"
proof -
  have "sum_list (map length (sort xs)) = sum_list (map length xs)"
    by (metis mset_map mset_sort sum_mset_sum_list)
  then show ?thesis by (simp add: sort_Strings_def length_concat)
qed

end
