(* ===== verification/Matcher.thy ===== *)
theory Matcher
  imports Go_Prelude
begin

text \<open>
  The label matcher of internal/config/matcher.go as a value: what is derived from the
  command line (ToMatcher), what a request gets (ForRequest) and how the ViaQ to OTel
  migration changes the keys. The pointer structure of the same code is in Matcher_Heap.

  A map[string]struct{} is a partial function to \<^typ>\<open>unit\<close>; a nil map reads like an empty
  one and is never written, so both are \<^term>\<open>Map.empty\<close>. A nil slice reads like an empty
  one, so both are \<^term>\<open>[]\<close>. The map of selectors is an association list with distinct
  keys, since the handler also iterates over it.
\<close>

type_synonym string_set = "string \<rightharpoonup> unit"

type_synonym selectors = "(string \<times> string list) list"

text \<open>OPAConfig: the flags below --opa, still unparsed.\<close>

record OPAConfig =
  Pkg :: string
  Rule :: string
  opa_Matcher :: string
  opa_MatcherOp :: string
  MatcherSkipTenants :: string
  MatcherAdminGroups :: string
  SSAR :: bool
  opa_ViaQToOTELMigration :: bool

record Matcher =
  Keys :: "string list"
  MatcherOp :: string
  skipTenants :: string_set
  adminGroups :: string_set

definition MatcherOr :: string where "MatcherOr = ''or''"
definition MatcherAnd :: string where "MatcherAnd = ''and''"
definition matchersSeparator :: char where "matchersSeparator = CHR '',''"

abbreviation kubernetes_namespace_name :: string where
  "kubernetes_namespace_name \<equiv> ''kubernetes_namespace_name''"

abbreviation k8s_namespace_name :: string where
  "k8s_namespace_name \<equiv> ''k8s_namespace_name''"

section \<open>From the flags to the matcher\<close>

text \<open>The loop of prepareMap: empty tokens are skipped.\<close>

fun addTokens :: "string_set \<Rightarrow> string list \<Rightarrow> string_set" where
  "addTokens m [] = m"
| "addTokens m (token # tokens) =
     (if token = [] then addTokens m tokens else addTokens (m(token \<mapsto> ())) tokens)"

definition prepareMap :: "string \<Rightarrow> string_set" where
  "prepareMap csvInput =
     (if csvInput = [] then Map.empty
      else addTokens Map.empty (split (CHR '','') csvInput))"

definition ToMatcher :: "OPAConfig \<Rightarrow> Matcher" where
  "ToMatcher c =
     (let matcher = \<lparr>Keys = [], MatcherOp = opa_MatcherOp c,
            skipTenants = prepareMap (MatcherSkipTenants c),
            adminGroups = prepareMap (MatcherAdminGroups c)\<rparr>;
          keys = split matchersSeparator (opa_Matcher c)
      in if 0 < length keys \<and> keys ! 0 \<noteq> [] then matcher\<lparr>Keys := keys\<rparr> else matcher)"

section \<open>Per-request operations\<close>

definition IsEmpty :: "Matcher \<Rightarrow> bool" where
  "IsEmpty m \<longleftrightarrow> length (Keys m) = 0"

definition IsSingle :: "Matcher \<Rightarrow> bool" where
  "IsSingle m \<longleftrightarrow> length (Keys m) = 1"

definition EmptyMatcher :: Matcher where
  "EmptyMatcher = \<lparr>Keys = [], MatcherOp = [], skipTenants = Map.empty, adminGroups = Map.empty\<rparr>"

definition Clone :: "Matcher \<Rightarrow> Matcher" where
  "Clone m = \<lparr>Keys = Keys m, MatcherOp = MatcherOp m,
     skipTenants = skipTenants m, adminGroups = adminGroups m\<rparr>"

text \<open>The loop of ForRequest over the groups, with its early return.\<close>

fun anyAdminGroup :: "string_set \<Rightarrow> string list \<Rightarrow> bool" where
  "anyAdminGroup admins [] = False"
| "anyAdminGroup admins (g # groups) =
     (case admins g of Some u \<Rightarrow> True | None \<Rightarrow> anyAdminGroup admins groups)"

definition ForRequest :: "Matcher \<Rightarrow> string \<Rightarrow> string list \<Rightarrow> Matcher" where
  "ForRequest m tenant groups =
     (if IsEmpty m then m
      else case skipTenants m tenant of
        Some u \<Rightarrow> EmptyMatcher
      | None \<Rightarrow> if anyAdminGroup (adminGroups m) groups then EmptyMatcher else Clone m)"

text \<open>The test "vals, ok := selectors[key]; ok and len(vals) > 0".\<close>

definition hasValues :: "selectors \<Rightarrow> string \<Rightarrow> bool" where
  "hasValues sels key =
     (case map_of sels key of None \<Rightarrow> False | Some vals \<Rightarrow> 0 < length vals)"

text \<open>The deletion both branches of ViaQToOTELMigration perform.\<close>

definition deleteKey :: "Matcher \<Rightarrow> string \<Rightarrow> Matcher" where
  "deleteKey m key =
     (let i = slices_Index (Keys m) key
      in if i \<noteq> - 1 then m\<lparr>Keys := slices_Delete (Keys m) (nat i) (nat (i + 1))\<rparr> else m)"

definition ViaQToOTELMigration :: "Matcher \<Rightarrow> selectors \<Rightarrow> Matcher" where
  "ViaQToOTELMigration m sels =
     (if hasValues sels k8s_namespace_name then deleteKey m kubernetes_namespace_name
      else deleteKey m k8s_namespace_name)"

section \<open>Lemmas\<close>

lemma addTokens_eq:
  "addTokens m tokens t = (if t \<noteq> [] \<and> t \<in> set tokens then Some () else m t)"
  by (induction m tokens rule: addTokens.induct) (auto simp: fun_upd_def)

lemma prepareMap_eq:
  "prepareMap csv t = (if t \<noteq> [] \<and> t \<in> set (split (CHR '','') csv) then Some () else None)"
  by (auto simp: prepareMap_def addTokens_eq)

lemma dom_prepareMap: "dom (prepareMap csv) = set (split (CHR '','') csv) - {[]}"
  by (auto simp: prepareMap_eq dom_def)

lemma ToMatcher_sel [simp]:
  "MatcherOp (ToMatcher c) = opa_MatcherOp c"
  "skipTenants (ToMatcher c) = prepareMap (MatcherSkipTenants c)"
  "adminGroups (ToMatcher c) = prepareMap (MatcherAdminGroups c)"
  by (simp_all add: ToMatcher_def Let_def)

lemma Keys_ToMatcher:
  "Keys (ToMatcher c) =
     (let keys = split (CHR '','') (opa_Matcher c) in if hd keys = [] then [] else keys)"
  by (cases "split (CHR '','') (opa_Matcher c)")
     (auto simp: ToMatcher_def matchersSeparator_def Let_def)

lemma Clone_id [simp]: "Clone m = m"
  by (simp add: Clone_def)

lemma IsEmpty_iff: "IsEmpty m \<longleftrightarrow> Keys m = []"
  by (simp add: IsEmpty_def)

lemma IsEmpty_EmptyMatcher [simp]: "IsEmpty EmptyMatcher" "Keys EmptyMatcher = []"
  by (simp_all add: EmptyMatcher_def IsEmpty_def)

lemma anyAdminGroup_iff: "anyAdminGroup admins groups \<longleftrightarrow> (\<exists>g \<in> set groups. g \<in> dom admins)"
  by (induction admins groups rule: anyAdminGroup.induct) (auto split: option.splits)

definition exempt :: "Matcher \<Rightarrow> string \<Rightarrow> string list \<Rightarrow> bool" where
  \<comment> \<open>the subjects that need no label matcher: a skipped tenant, or a member of an admin group\<close>
  "exempt m tenant groups \<longleftrightarrow> tenant \<in> dom (skipTenants m) \<or> set groups \<inter> dom (adminGroups m) \<noteq> {}"

lemma ForRequest_eq:
  "ForRequest m tenant groups = (if IsEmpty m \<or> \<not> exempt m tenant groups then m else EmptyMatcher)"
  by (auto simp: ForRequest_def exempt_def anyAdminGroup_iff split: option.splits)

lemma IsEmpty_ForRequest:
  "IsEmpty (ForRequest m tenant groups) \<longleftrightarrow> IsEmpty m \<or> exempt m tenant groups"
  by (simp add: ForRequest_eq)

lemma deleteKey_eq: "deleteKey m key = m\<lparr>Keys := remove1 key (Keys m)\<rparr>"
proof (cases "key \<in> set (Keys m)")
  case True
  then have "slices_Index (Keys m) key \<noteq> - 1" by (simp add: slices_Index_notin)
  with True show ?thesis by (simp add: deleteKey_def Let_def slices_Delete_Index)
next
  case False
  then have "slices_Index (Keys m) key = - 1" by (simp add: slices_Index_notin)
  with False show ?thesis by (simp add: deleteKey_def remove1_idem)
qed

lemma ViaQToOTELMigration_eq:
  "ViaQToOTELMigration m sels =
     m\<lparr>Keys := remove1 (if hasValues sels k8s_namespace_name then kubernetes_namespace_name
                        else k8s_namespace_name) (Keys m)\<rparr>"
  by (simp add: ViaQToOTELMigration_def deleteKey_eq)

lemma ViaQToOTELMigration_sel [simp]:
  "MatcherOp (ViaQToOTELMigration m sels) = MatcherOp m"
  "skipTenants (ViaQToOTELMigration m sels) = skipTenants m"
  "adminGroups (ViaQToOTELMigration m sels) = adminGroups m"
  by (simp_all add: ViaQToOTELMigration_eq)

text \<open>What the handler does with the matcher before it authorizes a request.\<close>

definition requestMatcher :: "Matcher \<Rightarrow> bool \<Rightarrow> string \<Rightarrow> string list \<Rightarrow> selectors \<Rightarrow> Matcher" where
  "requestMatcher m viaq tenant groups sels =
     (let r = ForRequest m tenant groups in if viaq then ViaQToOTELMigration r sels else r)"

lemma set_Keys_requestMatcher: "set (Keys (requestMatcher m viaq tenant groups sels)) \<subseteq> set (Keys m)"
  by (auto simp: requestMatcher_def Let_def ViaQToOTELMigration_eq ForRequest_eq
      dest: set_remove1_subset [THEN subsetD])

text \<open>The lengths of the concatenated keys tell the four possible request matchers apart.\<close>

lemma requestMatcher_cases:
  "Keys (requestMatcher m viaq tenant groups sels)
     \<in> {[], Keys m, remove1 kubernetes_namespace_name (Keys m), remove1 k8s_namespace_name (Keys m)}"
  by (auto simp: requestMatcher_def Let_def ViaQToOTELMigration_eq ForRequest_eq)

section \<open>Properties\<close>

text \<open>
  The set built from a comma-separated flag holds exactly the non-empty tokens of the flag,
  so an empty entry never exempts a request with an empty tenant or an empty group name.
\<close>

lemma prepareMap_tokens:
  "dom (prepareMap csv) = {t. t \<noteq> [] \<and> t \<in> set (split (CHR '','') csv)}"
  by (auto simp: dom_prepareMap)

text \<open>
  C29: the matcher a request gets. A request is exempt when its tenant is a non-empty entry of
  --opa.skip-tenants or one of its groups is a non-empty entry of --opa.admin-groups. With keys
  configured, an exempt request gets the empty matcher; every other request gets the configured
  matcher unchanged.
\<close>

theorem ForRequest_ToMatcher:
  "ForRequest (ToMatcher c) tenant groups =
     (if Keys (ToMatcher c) = [] then ToMatcher c
      else if tenant \<noteq> [] \<and> tenant \<in> set (split (CHR '','') (MatcherSkipTenants c))
         \<or> (\<exists>g. g \<in> set groups \<and> g \<noteq> [] \<and> g \<in> set (split (CHR '','') (MatcherAdminGroups c)))
      then EmptyMatcher else ToMatcher c)"
  by (auto simp: ForRequest_eq exempt_def dom_prepareMap IsEmpty_iff)

text \<open>
  C30: the migration keeps exactly one of the two namespace labels. When both labels are keys of
  the matcher, each once, a query that selects k8s_namespace_name is matched on
  k8s_namespace_name alone, every other query on kubernetes_namespace_name alone, and all other
  keys stay in place.
\<close>

theorem ViaQToOTELMigration_one_label:
  assumes "distinct (Keys m)"
    and "kubernetes_namespace_name \<in> set (Keys m)" and "k8s_namespace_name \<in> set (Keys m)"
  shows "Keys (ViaQToOTELMigration m sels) =
    filter (\<lambda>k. k \<noteq> (if hasValues sels k8s_namespace_name then kubernetes_namespace_name
                      else k8s_namespace_name)) (Keys m)
    \<and> (k8s_namespace_name \<in> set (Keys (ViaQToOTELMigration m sels))
         \<longleftrightarrow> hasValues sels k8s_namespace_name)
    \<and> (kubernetes_namespace_name \<in> set (Keys (ViaQToOTELMigration m sels))
         \<longleftrightarrow> \<not> hasValues sels k8s_namespace_name)"
  using assms by (auto simp: ViaQToOTELMigration_eq distinct_remove1_removeAll removeAll_filter_not_eq
      intro!: filter_cong)

definition exampleMatcher :: Matcher where
  "exampleMatcher = ToMatcher \<lparr>Pkg = [], Rule = ''allow'',
     opa_Matcher = ''kubernetes_namespace_name,k8s_namespace_name'', opa_MatcherOp = ''or'',
     MatcherSkipTenants = ''tenantB'', MatcherAdminGroups = ''admins,,ops'',
     SSAR = False, opa_ViaQToOTELMigration = True\<rparr>"

lemma Keys_exampleMatcher [simp]:
  "Keys exampleMatcher = [kubernetes_namespace_name, k8s_namespace_name]"
  by (simp add: exampleMatcher_def Keys_ToMatcher)

theorem ViaQToOTELMigration_one_label_witness:
  "Keys (ViaQToOTELMigration exampleMatcher [(k8s_namespace_name, [''ns-1''])]) = [k8s_namespace_name]"
  using ViaQToOTELMigration_one_label [of exampleMatcher "[(k8s_namespace_name, [''ns-1''])]"]
  by (simp add: hasValues_def)

text \<open>
  C39: a comma in front of the matcher flag switches the matcher off. Whenever --opa.matcher
  starts with a comma the matcher is empty, whatever keys follow it, and every request is
  handled as if no label matcher had been configured.
\<close>

theorem ToMatcher_leading_comma:
  "ForRequest (ToMatcher (c\<lparr>opa_Matcher := CHR '','' # keys\<rparr>)) tenant groups =
     ToMatcher (c\<lparr>opa_Matcher := []\<rparr>)"
  by (simp add: ForRequest_def IsEmpty_def ToMatcher_def matchersSeparator_def)

end
