(* ===== verification/Matcher_Heap.thy ===== *)
theory Matcher_Heap
  imports Matcher
begin

text \<open>
  The same matcher operations with the pointers the code has (internal/config/matcher.go).

  handler.New builds one Matcher and every request reads it through a pointer, while
  ViaQToOTELMigration shortens the Keys slice of the request's matcher in place: slices.Delete
  moves the elements of the backing array and clears its tail. Whether concurrent or later
  requests see a damaged matcher depends on what Clone copies. Here the arrays, the maps and the
  Matcher structs live in an explicit store; \<open>absMatcher\<close> reads the value behind a pointer.
  The theory shows that the pointer program computes \<open>requestMatcher\<close> and leaves every
  object that existed before the request as it was.
\<close>

type_synonym addr = nat

section \<open>The store\<close>

record slice =
  array :: addr
  len :: nat

text \<open>A nil slice or map is \<^term>\<open>None\<close>.\<close>

record matcherObj =
  hKeys :: "slice option"
  hMatcherOp :: string
  hSkipTenants :: "addr option"
  hAdminGroups :: "addr option"

record store =
  arrays :: "addr \<rightharpoonup> string list"
  maps :: "addr \<rightharpoonup> string_set"
  matchers :: "addr \<rightharpoonup> matcherObj"
  nextAddr :: addr

definition emptyObj :: matcherObj where
  "emptyObj = \<lparr>hKeys = None, hMatcherOp = [], hSkipTenants = None, hAdminGroups = None\<rparr>"

definition arrayAt :: "store \<Rightarrow> addr \<Rightarrow> string list" where
  "arrayAt h a = (case arrays h a of None \<Rightarrow> [] | Some xs \<Rightarrow> xs)"

definition mapAt :: "store \<Rightarrow> addr option \<Rightarrow> string_set" where
  "mapAt h p = (case p of None \<Rightarrow> Map.empty
     | Some a \<Rightarrow> (case maps h a of None \<Rightarrow> Map.empty | Some m \<Rightarrow> m))"

definition objAt :: "store \<Rightarrow> addr \<Rightarrow> matcherObj" where
  "objAt h p = (case matchers h p of None \<Rightarrow> emptyObj | Some obj \<Rightarrow> obj)"

definition sliceVal :: "store \<Rightarrow> slice option \<Rightarrow> string list" where
  "sliceVal h s = (case s of None \<Rightarrow> [] | Some sl \<Rightarrow> take (len sl) (arrayAt h (array sl)))"

definition absMatcher :: "store \<Rightarrow> addr \<Rightarrow> Matcher" where
  "absMatcher h p = (let obj = objAt h p in
     \<lparr>Keys = sliceVal h (hKeys obj), MatcherOp = hMatcherOp obj,
      skipTenants = mapAt h (hSkipTenants obj), adminGroups = mapAt h (hAdminGroups obj)\<rparr>)"

section \<open>Operations on the store\<close>

definition allocArray :: "string list \<Rightarrow> store \<Rightarrow> addr \<times> store" where
  "allocArray xs h = (nextAddr h,
     h\<lparr>arrays := (arrays h)(nextAddr h \<mapsto> xs), nextAddr := Suc (nextAddr h)\<rparr>)"

definition allocMap :: "string_set \<Rightarrow> store \<Rightarrow> addr \<times> store" where
  "allocMap m h = (nextAddr h,
     h\<lparr>maps := (maps h)(nextAddr h \<mapsto> m), nextAddr := Suc (nextAddr h)\<rparr>)"

definition allocMatcher :: "matcherObj \<Rightarrow> store \<Rightarrow> addr \<times> store" where
  "allocMatcher obj h = (nextAddr h,
     h\<lparr>matchers := (matchers h)(nextAddr h \<mapsto> obj), nextAddr := Suc (nextAddr h)\<rparr>)"

text \<open>
  slices.Clone: nil stays nil, an empty slice is returned over the array it has, any other
  slice gets an array of its own.
\<close>

definition slicesClone :: "slice option \<Rightarrow> store \<Rightarrow> slice option \<times> store" where
  "slicesClone s h = (case s of
       None \<Rightarrow> (None, h)
     | Some sl \<Rightarrow>
         if len sl = 0 then (Some sl, h)
         else (let (a, h') = allocArray (sliceVal h s) h
               in (Some \<lparr>array = a, len = len sl\<rparr>, h')))"

text \<open>maps.Clone: nil stays nil.\<close>

definition mapsClone :: "addr option \<Rightarrow> store \<Rightarrow> addr option \<times> store" where
  "mapsClone m h = (case m of
       None \<Rightarrow> (None, h)
     | Some a \<Rightarrow> (let (a', h') = allocMap (mapAt h m) h in (Some a', h')))"

text \<open>
  slices.Delete(s, i, j) in place: the tail moves down to i, the j - i vacated elements are
  cleared, the array beyond the slice is untouched, and the slice gets shorter.
\<close>

definition slicesDelete :: "slice \<Rightarrow> nat \<Rightarrow> nat \<Rightarrow> store \<Rightarrow> slice \<times> store" where
  "slicesDelete sl i j h =
     (let xs = take (len sl) (arrayAt h (array sl));
          xs' = take i xs @ drop j xs @ replicate (j - i) [] @ drop (len sl) (arrayAt h (array sl))
      in (sl\<lparr>len := len sl - (j - i)\<rparr>,
          h\<lparr>arrays := (arrays h)(array sl \<mapsto> xs')\<rparr>))"

section \<open>The methods of *Matcher\<close>

definition hEmptyMatcher :: "store \<Rightarrow> addr \<times> store" where
  "hEmptyMatcher h = allocMatcher emptyObj h"

definition hClone :: "addr \<Rightarrow> store \<Rightarrow> addr \<times> store" where
  "hClone p h =
     (let m = objAt h p;
          (keys, h1) = slicesClone (hKeys m) h;
          (skips, h2) = mapsClone (hSkipTenants m) h1;
          (admins, h3) = mapsClone (hAdminGroups m) h2
      in allocMatcher \<lparr>hKeys = keys, hMatcherOp = hMatcherOp m,
           hSkipTenants = skips, hAdminGroups = admins\<rparr> h3)"

definition hForRequest :: "addr \<Rightarrow> string \<Rightarrow> string list \<Rightarrow> store \<Rightarrow> addr \<times> store" where
  "hForRequest p tenant groups h =
     (let m = objAt h p
      in if length (sliceVal h (hKeys m)) = 0 then (p, h)
         else case mapAt h (hSkipTenants m) tenant of
           Some u \<Rightarrow> hEmptyMatcher h
         | None \<Rightarrow> if anyAdminGroup (mapAt h (hAdminGroups m)) groups then hEmptyMatcher h
                   else hClone p h)"

definition hDeleteKey :: "addr \<Rightarrow> string \<Rightarrow> store \<Rightarrow> store" where
  "hDeleteKey p key h =
     (let m = objAt h p; i = slices_Index (sliceVal h (hKeys m)) key
      in if i \<noteq> - 1
         then (case hKeys m of
                 None \<Rightarrow> h
               | Some sl \<Rightarrow>
                   (let (sl', h') = slicesDelete sl (nat i) (nat (i + 1)) h
                    in h'\<lparr>matchers := (matchers h')(p \<mapsto> m\<lparr>hKeys := Some sl'\<rparr>)\<rparr>))
         else h)"

definition hViaQToOTELMigration :: "addr \<Rightarrow> selectors \<Rightarrow> store \<Rightarrow> store" where
  "hViaQToOTELMigration p sels h =
     (if hasValues sels k8s_namespace_name then hDeleteKey p kubernetes_namespace_name h
      else hDeleteKey p k8s_namespace_name h)"

text \<open>The part of the handler that works on the matcher of a request.\<close>

definition hRequestMatcher ::
  "bool \<Rightarrow> string \<Rightarrow> string list \<Rightarrow> selectors \<Rightarrow> addr \<Rightarrow> store \<Rightarrow> addr \<times> store" where
  "hRequestMatcher viaq tenant groups sels p h =
     (let (q, h') = hForRequest p tenant groups h
      in if viaq then (q, hViaQToOTELMigration q sels h') else (q, h'))"

section \<open>Well-formed stores\<close>

definition validSlice :: "store \<Rightarrow> slice option \<Rightarrow> bool" where
  "validSlice h s = (case s of None \<Rightarrow> True
     | Some sl \<Rightarrow> (case arrays h (array sl) of None \<Rightarrow> False | Some xs \<Rightarrow> len sl \<le> length xs))"

definition validMap :: "store \<Rightarrow> addr option \<Rightarrow> bool" where
  "validMap h m = (case m of None \<Rightarrow> True | Some a \<Rightarrow> maps h a \<noteq> None)"

definition validObj :: "store \<Rightarrow> matcherObj \<Rightarrow> bool" where
  "validObj h obj \<longleftrightarrow> validSlice h (hKeys obj) \<and> validMap h (hSkipTenants obj)
     \<and> validMap h (hAdminGroups obj)"

definition validStore :: "store \<Rightarrow> bool" where
  "validStore h \<longleftrightarrow>
     (\<forall>a \<in> dom (arrays h) \<union> dom (maps h) \<union> dom (matchers h). a < nextAddr h)
     \<and> (\<forall>obj \<in> ran (matchers h). validObj h obj)"

text \<open>\<open>extends h h'\<close>: every object of \<open>h\<close> is in \<open>h'\<close>, unchanged.\<close>

definition extends :: "store \<Rightarrow> store \<Rightarrow> bool" where
  "extends h h' \<longleftrightarrow> arrays h \<subseteq>\<^sub>m arrays h' \<and> maps h \<subseteq>\<^sub>m maps h' \<and> matchers h \<subseteq>\<^sub>m matchers h'
     \<and> nextAddr h \<le> nextAddr h'"

lemma extends_refl [simp]: "extends h h"
  by (simp add: extends_def)

lemma extends_trans [trans]: "extends h1 h2 \<Longrightarrow> extends h2 h3 \<Longrightarrow> extends h1 h3"
  by (auto simp: extends_def intro: map_le_trans)

lemma fresh:
  assumes "validStore h"
  shows "arrays h (nextAddr h) = None" "maps h (nextAddr h) = None" "matchers h (nextAddr h) = None"
  using assms by (auto simp: validStore_def dom_def)

lemma map_le_upd_fresh: "m k = None \<Longrightarrow> m \<subseteq>\<^sub>m m(k \<mapsto> v)"
  by (auto simp: map_le_def)

lemma extends_arrayAt: "extends h h' \<Longrightarrow> arrays h a = Some xs \<Longrightarrow> arrays h' a = Some xs"
  by (metis domI extends_def map_le_def)

lemma extends_maps: "extends h h' \<Longrightarrow> maps h a = Some m \<Longrightarrow> maps h' a = Some m"
  by (metis domI extends_def map_le_def)

lemma extends_matchers: "extends h h' \<Longrightarrow> matchers h a = Some m \<Longrightarrow> matchers h' a = Some m"
  by (metis domI extends_def map_le_def)

text \<open>What is valid reads the same in every extension.\<close>

lemma extends_sliceVal: "extends h h' \<Longrightarrow> validSlice h s \<Longrightarrow> sliceVal h' s = sliceVal h s"
  by (auto simp: sliceVal_def validSlice_def arrayAt_def dest: extends_arrayAt split: option.splits)

lemma extends_mapAt: "extends h h' \<Longrightarrow> validMap h m \<Longrightarrow> mapAt h' m = mapAt h m"
  by (auto simp: mapAt_def validMap_def dest: extends_maps split: option.splits)

lemma extends_validSlice: "extends h h' \<Longrightarrow> validSlice h s \<Longrightarrow> validSlice h' s"
  by (auto simp: validSlice_def dest: extends_arrayAt split: option.splits)

lemma extends_validMap: "extends h h' \<Longrightarrow> validMap h m \<Longrightarrow> validMap h' m"
  by (auto simp: validMap_def dest: extends_maps split: option.splits)

lemma extends_validObj: "extends h h' \<Longrightarrow> validObj h obj \<Longrightarrow> validObj h' obj"
  by (auto simp: validObj_def extends_validSlice extends_validMap)

lemma validStore_obj: "validStore h \<Longrightarrow> matchers h p = Some obj \<Longrightarrow> validObj h obj"
  by (auto simp: validStore_def ran_def)

lemma extends_absMatcher:
  assumes "extends h h'" "validStore h" "p \<in> dom (matchers h)"
  shows "absMatcher h' p = absMatcher h p"
proof -
  from assms(3) obtain obj where obj: "matchers h p = Some obj" by auto
  with assms(1,2) have "matchers h' p = Some obj" "validObj h obj"
    by (auto dest: extends_matchers validStore_obj)
  with obj assms(1) show ?thesis
    by (simp add: absMatcher_def objAt_def Let_def validObj_def extends_sliceVal extends_mapAt)
qed

section \<open>Allocation\<close>

definition bounded :: "store \<Rightarrow> bool" where
  "bounded h \<longleftrightarrow> (\<forall>a \<in> dom (arrays h) \<union> dom (maps h) \<union> dom (matchers h). a < nextAddr h)"

lemma validStore_bounded: "validStore h \<Longrightarrow> bounded h"
  by (simp add: validStore_def bounded_def)

lemma bounded_alloc:
  assumes "bounded h"
  shows "bounded (snd (allocArray xs h))" "bounded (snd (allocMap m h))"
    "bounded (snd (allocMatcher obj h))"
  using assms by (auto simp: bounded_def allocArray_def allocMap_def allocMatcher_def less_Suc_eq)

lemma extends_alloc:
  assumes "validStore h"
  shows "extends h (snd (allocArray xs h))" "extends h (snd (allocMap m h))"
    "extends h (snd (allocMatcher obj h))"
  using fresh [OF assms]
  by (simp_all add: extends_def allocArray_def allocMap_def allocMatcher_def map_le_upd_fresh)

text \<open>An extension that adds no Matcher struct but a valid one keeps the store valid.\<close>

lemma validStore_extends:
  assumes "validStore h" "extends h h'" "bounded h'"
    and "ran (matchers h') \<subseteq> ran (matchers h) \<union> Collect (validObj h')"
  shows "validStore h'"
  using assms by (auto simp: validStore_def bounded_def intro: extends_validObj)

lemma allocArray_spec:
  assumes "validStore h" "allocArray xs h = (a, h')"
  shows "extends h h' \<and> validStore h' \<and> arrays h' a = Some xs \<and> arrays h a = None
    \<and> matchers h' = matchers h"
proof -
  have h': "h' = snd (allocArray xs h)" and a: "a = nextAddr h" using assms(2) by (auto simp: allocArray_def)
  have ext: "extends h h'" and same: "matchers h' = matchers h"
    using extends_alloc(1) [OF assms(1)] by (simp_all add: h' allocArray_def)
  have "bounded h'" using bounded_alloc(1) [OF validStore_bounded [OF assms(1)]] by (simp add: h')
  then have "validStore h'" using validStore_extends [OF assms(1) ext] same by auto
  with ext same show ?thesis using a fresh(1) [OF assms(1)] by (simp add: h' allocArray_def)
qed

lemma allocMap_spec:
  assumes "validStore h" "allocMap m h = (a, h')"
  shows "extends h h' \<and> validStore h' \<and> maps h' a = Some m \<and> matchers h' = matchers h"
proof -
  have h': "h' = snd (allocMap m h)" and a: "a = nextAddr h" using assms(2) by (auto simp: allocMap_def)
  have ext: "extends h h'" and same: "matchers h' = matchers h"
    using extends_alloc(2) [OF assms(1)] by (simp_all add: h' allocMap_def)
  have "bounded h'" using bounded_alloc(2) [OF validStore_bounded [OF assms(1)]] by (simp add: h')
  then have "validStore h'" using validStore_extends [OF assms(1) ext] same by auto
  with ext same show ?thesis using a by (simp add: h' allocMap_def)
qed

lemma allocMatcher_spec:
  assumes "validStore h" "validObj h obj" "allocMatcher obj h = (p, h')"
  shows "extends h h' \<and> validStore h' \<and> matchers h' p = Some obj \<and> matchers h p = None
    \<and> arrays h' = arrays h \<and> maps h' = maps h"
proof -
  have h': "h' = snd (allocMatcher obj h)" and p: "p = nextAddr h" using assms(3) by (auto simp: allocMatcher_def)
  have ext: "extends h h'" using extends_alloc(3) [OF assms(1)] by (simp add: h')
  have new: "ran (matchers h') \<subseteq> ran (matchers h) \<union> {obj}"
    by (auto simp: h' allocMatcher_def ran_def split: if_splits)
  have "validStore h'"
    using validStore_extends [OF assms(1) ext] bounded_alloc(3) [OF validStore_bounded [OF assms(1)]]
      new extends_validObj [OF ext assms(2)] by (auto simp: h')
  with ext show ?thesis using p fresh(3) [OF assms(1)] by (simp add: h' allocMatcher_def)
qed

section \<open>Cloning\<close>

text \<open>\<open>ownSlice h0 s\<close>: the array of a non-empty slice was allocated after \<open>h0\<close>.\<close>

definition ownSlice :: "store \<Rightarrow> slice option \<Rightarrow> bool" where
  "ownSlice h0 s = (case s of None \<Rightarrow> True
     | Some sl \<Rightarrow> len sl = 0 \<or> arrays h0 (array sl) = None)"

lemma slicesClone_spec:
  assumes "validStore h" "validSlice h s" "slicesClone s h = (s', h')"
  shows "extends h h' \<and> validStore h' \<and> matchers h' = matchers h \<and> validSlice h' s'
    \<and> sliceVal h' s' = sliceVal h s \<and> ownSlice h s'"
proof (cases s)
  case None
  with assms show ?thesis by (auto simp: slicesClone_def ownSlice_def validSlice_def)
next
  case (Some sl)
  show ?thesis
  proof (cases "len sl = 0")
    case True
    with assms Some show ?thesis by (auto simp: slicesClone_def ownSlice_def)
  next
    case False
    obtain a g where alloc: "allocArray (sliceVal h s) h = (a, g)" by fastforce
    with assms(3) Some False have eqs: "s' = Some \<lparr>array = a, len = len sl\<rparr>" "h' = g"
      by (auto simp: slicesClone_def)
    from assms(2) Some have "length (sliceVal h s) = len sl"
      by (auto simp: validSlice_def sliceVal_def arrayAt_def split: option.splits)
    with allocArray_spec [OF assms(1) alloc] show ?thesis
      by (simp add: eqs validSlice_def sliceVal_def ownSlice_def arrayAt_def)
  qed
qed

lemma mapsClone_spec:
  assumes "validStore h" "validMap h m" "mapsClone m h = (m', h')"
  shows "extends h h' \<and> validStore h' \<and> matchers h' = matchers h \<and> validMap h' m'
    \<and> mapAt h' m' = mapAt h m"
proof (cases m)
  case None
  with assms show ?thesis by (auto simp: mapsClone_def validMap_def mapAt_def)
next
  case (Some a)
  obtain b g where alloc: "allocMap (mapAt h m) h = (b, g)" by fastforce
  with assms(3) Some have eqs: "m' = Some b" "h' = g" by (auto simp: mapsClone_def)
  with allocMap_spec [OF assms(1) alloc] show ?thesis by (simp add: validMap_def mapAt_def)
qed

text \<open>
  What a request works on: a pointer to a struct that reads as the given matcher and that is
  either an old struct without keys or a new one whose keys nobody else holds.
\<close>

definition privateMatcher :: "store \<Rightarrow> store \<Rightarrow> addr \<Rightarrow> bool" where
  "privateMatcher h0 h p \<longleftrightarrow> Keys (absMatcher h p) = []
     \<or> matchers h0 p = None \<and> ownSlice h0 (hKeys (objAt h p))"

lemma hClone_spec:
  assumes valid: "validStore h" and p: "p \<in> dom (matchers h)" and clone: "hClone p h = (q, h')"
  shows "extends h h' \<and> validStore h' \<and> q \<in> dom (matchers h') \<and> absMatcher h' q = absMatcher h p
    \<and> privateMatcher h h' q"
proof -
  let ?m = "objAt h p"
  obtain keys h1 where 1: "slicesClone (hKeys ?m) h = (keys, h1)" by fastforce
  obtain skips h2 where 2: "mapsClone (hSkipTenants ?m) h1 = (skips, h2)" by fastforce
  obtain admins h3 where 3: "mapsClone (hAdminGroups ?m) h2 = (admins, h3)" by fastforce
  let ?obj = "\<lparr>hKeys = keys, hMatcherOp = hMatcherOp ?m, hSkipTenants = skips, hAdminGroups = admins\<rparr>"
  have 4: "allocMatcher ?obj h3 = (q, h')"
    using clone 1 2 3 by (simp add: hClone_def Let_def)
  have m: "validObj h ?m"
    using p validStore_obj [OF valid] by (auto simp: objAt_def)
  then have mv: "validSlice h (hKeys ?m)" "validMap h (hSkipTenants ?m)" "validMap h (hAdminGroups ?m)"
    by (simp_all add: validObj_def)
  note s1 = slicesClone_spec [OF valid mv(1) 1]
  then have e1: "extends h h1" and v1: "validStore h1" by auto
  note s2 = mapsClone_spec [OF v1 extends_validMap [OF e1 mv(2)] 2]
  then have e2: "extends h1 h2" and v2: "validStore h2" by auto
  note s3 = mapsClone_spec [OF v2 extends_validMap [OF extends_trans [OF e1 e2] mv(3)] 3]
  then have e3: "extends h2 h3" and v3: "validStore h3" by auto
  have "validObj h3 ?obj"
    using s1 s2 s3 e2 e3 by (simp add: validObj_def extends_validSlice extends_validMap)
  note s4 = allocMatcher_spec [OF v3 this 4]
  then have e4: "extends h3 h'" by auto
  note e34 = extends_trans [OF e3 e4]
  note e24 = extends_trans [OF e2 e34]
  have "mapAt h' skips = mapAt h (hSkipTenants ?m)" "mapAt h' admins = mapAt h (hAdminGroups ?m)"
    "sliceVal h' keys = sliceVal h (hKeys ?m)"
    using s1 s2 s3 mv extends_mapAt [OF e34, of skips] extends_mapAt [OF e4, of admins]
      extends_sliceVal [OF e24, of keys] extends_mapAt [OF e1] extends_mapAt [OF extends_trans [OF e1 e2]]
    by auto
  then have abs: "absMatcher h' q = absMatcher h p"
    using s4 by (simp add: absMatcher_def Let_def objAt_def [of h'])
  have "matchers h q = None" using s1 s2 s3 s4 by simp
  then have "privateMatcher h h' q" using s1 s4 by (simp add: privateMatcher_def objAt_def)
  moreover have "extends h h'" using e1 e24 by (rule extends_trans)
  ultimately show ?thesis using s4 abs by auto
qed

section \<open>A request's matcher\<close>

lemma hForRequest_spec:
  assumes valid: "validStore h" and p: "p \<in> dom (matchers h)"
    and run: "hForRequest p tenant groups h = (q, h')"
  shows "extends h h' \<and> validStore h' \<and> q \<in> dom (matchers h')
    \<and> absMatcher h' q = ForRequest (absMatcher h p) tenant groups \<and> privateMatcher h h' q"
proof -
  have sel: "Keys (absMatcher h p) = sliceVal h (hKeys (objAt h p))"
    "skipTenants (absMatcher h p) = mapAt h (hSkipTenants (objAt h p))"
    "adminGroups (absMatcher h p) = mapAt h (hAdminGroups (objAt h p))"
    by (simp_all add: absMatcher_def Let_def)
  have empty: "extends h g \<and> validStore g \<and> r \<in> dom (matchers g) \<and> absMatcher g r = EmptyMatcher
      \<and> privateMatcher h g r" if "hEmptyMatcher h = (r, g)" for r g
  proof -
    have "validObj h emptyObj" by (simp add: validObj_def emptyObj_def validSlice_def validMap_def)
    from allocMatcher_spec [OF valid this that [unfolded hEmptyMatcher_def]] show ?thesis
      by (auto simp: privateMatcher_def absMatcher_def objAt_def emptyObj_def sliceVal_def mapAt_def
          EmptyMatcher_def)
  qed
  show ?thesis
  proof (cases "Keys (absMatcher h p) = []")
    case True
    with run sel p valid show ?thesis
      by (simp add: hForRequest_def Let_def ForRequest_def IsEmpty_def privateMatcher_def)
  next
    case False
    then have "ForRequest (absMatcher h p) tenant groups =
        (if exempt (absMatcher h p) tenant groups then EmptyMatcher else absMatcher h p)"
      by (simp add: ForRequest_eq IsEmpty_iff)
    moreover have "(q, h') = (if exempt (absMatcher h p) tenant groups then hEmptyMatcher h else hClone p h)"
      using run False [unfolded sel]
      by (auto simp: hForRequest_def Let_def sel exempt_def anyAdminGroup_iff
          split: option.splits if_splits)
    ultimately show ?thesis
      using empty hClone_spec [OF valid p] by (metis (full_types))
  qed
qed

lemma sliceVal_slicesDelete:
  assumes "i < len sl" "len sl \<le> length (arrayAt h (array sl))" "slicesDelete sl i (Suc i) h = (sl', h')"
  shows "sliceVal h' (Some sl') = slices_Delete (sliceVal h (Some sl)) i (Suc i)"
    and "len sl' \<le> len sl" and "array sl' = array sl"
    and "\<exists>xs. h' = h\<lparr>arrays := (arrays h)(array sl \<mapsto> xs)\<rparr> \<and> length xs = length (arrayAt h (array sl))"
proof -
  let ?ys = "arrayAt h (array sl)"
  let ?xs = "take i (take (len sl) ?ys) @ drop (Suc i) (take (len sl) ?ys) @ [[]] @ drop (len sl) ?ys"
  have eqs: "sl' = sl\<lparr>len := len sl - 1\<rparr>" "h' = h\<lparr>arrays := (arrays h)(array sl \<mapsto> ?xs)\<rparr>"
    using assms(3) by (auto simp: slicesDelete_def Let_def)
  have "length (take i (take (len sl) ?ys) @ drop (Suc i) (take (len sl) ?ys)) = len sl - 1"
    using assms(1,2) by simp
  then have "take (len sl - 1) ?xs = take i (take (len sl) ?ys) @ drop (Suc i) (take (len sl) ?ys)"
    by (metis append.assoc append_eq_conv_conj)
  then show "sliceVal h' (Some sl') = slices_Delete (sliceVal h (Some sl)) i (Suc i)"
    by (simp add: eqs sliceVal_def arrayAt_def slices_Delete_def)
  show "len sl' \<le> len sl" "array sl' = array sl" by (simp_all add: eqs)
  have "length ?xs = length ?ys" using assms(1,2) by simp
  with eqs(2) show "\<exists>xs. h' = h\<lparr>arrays := (arrays h)(array sl \<mapsto> xs)\<rparr> \<and> length xs = length ?ys"
    by blast
qed

lemma hDeleteKey_spec:
  assumes ext: "extends h0 h" and valid: "validStore h" and q: "q \<in> dom (matchers h)"
    and priv: "privateMatcher h0 h q"
  shows "extends h0 (hDeleteKey q key h) \<and> validStore (hDeleteKey q key h)
    \<and> q \<in> dom (matchers (hDeleteKey q key h))
    \<and> absMatcher (hDeleteKey q key h) q = deleteKey (absMatcher h q) key"
proof -
  let ?m = "objAt h q" and ?i = "slices_Index (Keys (absMatcher h q)) key"
  have keys: "Keys (absMatcher h q) = sliceVal h (hKeys ?m)" by (simp add: absMatcher_def Let_def)
  show ?thesis
  proof (cases "?i = - 1")
    case True
    with assms keys show ?thesis by (simp add: hDeleteKey_def Let_def deleteKey_def)
  next
    case False
    then have "key \<in> set (Keys (absMatcher h q))" by (simp add: slices_Index_notin)
    then have i: "0 \<le> ?i" "nat ?i < length (Keys (absMatcher h q))" and ne: "Keys (absMatcher h q) \<noteq> []"
      using slices_Index_nth by force+
    from ne keys obtain sl where sl: "hKeys ?m = Some sl" by (cases "hKeys ?m") (auto simp: sliceVal_def)
    have m: "matchers h q = Some ?m" using q by (auto simp: objAt_def)
    with valid sl obtain ys where ys: "arrays h (array sl) = Some ys" "len sl \<le> length ys"
      by (auto dest!: validStore_obj simp: validObj_def validSlice_def split: option.splits)
    have ilt: "nat ?i < len sl" and arr: "len sl \<le> length (arrayAt h (array sl))"
      using i(2) keys sl ys by (auto simp: sliceVal_def arrayAt_def)
    obtain sl' h1 where del: "slicesDelete sl (nat ?i) (Suc (nat ?i)) h = (sl', h1)" by fastforce
    note d = sliceVal_slicesDelete [OF ilt arr del]
    then obtain xs where h1: "h1 = h\<lparr>arrays := (arrays h)(array sl \<mapsto> xs)\<rparr>" and lxs: "length xs = length ys"
      using ys by (auto simp: arrayAt_def)
    let ?m' = "?m\<lparr>hKeys := Some sl'\<rparr>"
    have run: "hDeleteKey q key h = h1\<lparr>matchers := (matchers h1)(q \<mapsto> ?m')\<rparr>"
      using False del i(1) by (simp add: hDeleteKey_def Let_def keys sl nat_add_distrib)
    have own: "matchers h0 q = None" "arrays h0 (array sl) = None"
      using priv ne sl ilt by (auto simp: privateMatcher_def ownSlice_def)
    have ext': "extends h0 (hDeleteKey q key h)"
      using ext own by (auto simp: extends_def run h1 map_le_def dom_def)
    have old: "validObj (hDeleteKey q key h) obj" if "validObj h obj" for obj
      using that ys lxs by (auto simp: validObj_def validSlice_def validMap_def run h1 split: option.splits)
    have "validObj h ?m" using valid m by (rule validStore_obj)
    then have new: "validObj (hDeleteKey q key h) ?m'"
      using ys(2) lxs d(2,3)
      by (auto simp: validObj_def validSlice_def validMap_def run h1 split: option.splits)
    have "validStore (hDeleteKey q key h)"
      using valid old new m ys(1)
      by (auto simp: validStore_def run h1 ran_def split: if_splits)
    moreover have "absMatcher (hDeleteKey q key h) q = deleteKey (absMatcher h q) key"
    proof -
      have "objAt (hDeleteKey q key h) q = ?m'" "mapAt (hDeleteKey q key h) = mapAt h"
        by (simp_all add: run h1 objAt_def [of "h\<lparr>arrays := _, matchers := _\<rparr>"] mapAt_def fun_eq_iff
            split: option.split)
      moreover have "sliceVal (hDeleteKey q key h) (Some sl') =
          slices_Delete (Keys (absMatcher h q)) (nat ?i) (Suc (nat ?i))"
        using d(1) by (simp add: keys sl run sliceVal_def arrayAt_def)
      ultimately have "absMatcher (hDeleteKey q key h) q =
          (absMatcher h q)\<lparr>Keys := slices_Delete (Keys (absMatcher h q)) (nat ?i) (Suc (nat ?i))\<rparr>"
        by (simp add: absMatcher_def Let_def)
      with False i(1) show ?thesis by (simp add: deleteKey_def Let_def nat_add_distrib)
    qed
    ultimately show ?thesis using ext' by (simp add: run)
  qed
qed

lemma hRequestMatcher_spec:
  assumes valid: "validStore h" and p: "p \<in> dom (matchers h)"
    and run: "hRequestMatcher viaq tenant groups sels p h = (q, h')"
  shows "extends h h' \<and> validStore h' \<and> q \<in> dom (matchers h')
    \<and> absMatcher h' q = requestMatcher (absMatcher h p) viaq tenant groups sels"
proof -
  obtain g where fr: "hForRequest p tenant groups h = (q, g)"
    and h': "h' = (if viaq then hViaQToOTELMigration q sels g else g)"
    using run by (auto simp: hRequestMatcher_def split: prod.splits if_splits)
  from hForRequest_spec [OF valid p fr]
  have g: "extends h g" "validStore g" "q \<in> dom (matchers g)" "privateMatcher h g q"
    and abs: "absMatcher g q = ForRequest (absMatcher h p) tenant groups" by auto
  from hDeleteKey_spec [OF g] g abs show ?thesis
    by (simp add: h' requestMatcher_def Let_def hViaQToOTELMigration_def ViaQToOTELMigration_def)
qed

section \<open>Serving many requests from one matcher\<close>

text \<open>
  The contract between the configuration's matcher and the requests that derive theirs from it:
  serving a request answers from the configured value alone and does not change it. The client
  lemma: in any sequence of requests each one gets the matcher it would get on its own.
\<close>

type_synonym matcher_request = "bool \<times> string \<times> string list \<times> selectors"

fun serveAll ::
  "(matcher_request \<Rightarrow> 's \<Rightarrow> Matcher \<times> 's) \<Rightarrow> matcher_request list \<Rightarrow> 's \<Rightarrow> Matcher list \<times> 's" where
  "serveAll serve [] s = ([], s)"
| "serveAll serve (r # rs) s =
     (let (m, s') = serve r s; (ms, s'') = serveAll serve rs s' in (m # ms, s''))"

fun answer :: "Matcher \<Rightarrow> matcher_request \<Rightarrow> Matcher" where
  "answer m (viaq, tenant, groups, sels) = requestMatcher m viaq tenant groups sels"

locale matcher_source =
  fixes inv :: "'s \<Rightarrow> bool"
    and config :: "'s \<Rightarrow> Matcher"
    and serve :: "matcher_request \<Rightarrow> 's \<Rightarrow> Matcher \<times> 's"
  assumes serve_inv: "inv s \<Longrightarrow> inv (snd (serve r s))"
    and serve_config: "inv s \<Longrightarrow> config (snd (serve r s)) = config s"
    and serve_answer: "inv s \<Longrightarrow> fst (serve r s) = answer (config s) r"
begin

lemma serveAll_isolated:
  "inv s \<Longrightarrow> fst (serveAll serve rs s) = map (answer (config s)) rs
    \<and> inv (snd (serveAll serve rs s)) \<and> config (snd (serveAll serve rs s)) = config s"
proof (induction rs arbitrary: s)
  case Nil
  then show ?case by simp
next
  case (Cons r rs)
  from Cons.IH [OF serve_inv [OF Cons.prems], of r] Cons.prems show ?case
    by (simp add: split_beta serve_answer serve_config)
qed

end

text \<open>The provider: the pointer program, its state the configuration's pointer and the store.\<close>

definition validConfig :: "addr \<times> store \<Rightarrow> bool" where
  "validConfig s \<longleftrightarrow> validStore (snd s) \<and> fst s \<in> dom (matchers (snd s))"

definition configOf :: "addr \<times> store \<Rightarrow> Matcher" where
  "configOf s = absMatcher (snd s) (fst s)"

fun serveRequest :: "matcher_request \<Rightarrow> addr \<times> store \<Rightarrow> Matcher \<times> addr \<times> store" where
  "serveRequest (viaq, tenant, groups, sels) (p, h) =
     (let (q, h') = hRequestMatcher viaq tenant groups sels p h in (absMatcher h' q, (p, h')))"

lemma serveRequest_spec:
  assumes "validConfig s"
  shows "validConfig (snd (serveRequest r s)) \<and> configOf (snd (serveRequest r s)) = configOf s
    \<and> fst (serveRequest r s) = answer (configOf s) r"
proof -
  obtain viaq tenant groups sels where r: "r = (viaq, tenant, groups, sels)" by (cases r) auto
  obtain p h where s: "s = (p, h)" by (cases s) auto
  obtain q h' where run: "hRequestMatcher viaq tenant groups sels p h = (q, h')" by fastforce
  from assms s have valid: "validStore h" "p \<in> dom (matchers h)" by (simp_all add: validConfig_def)
  note spec = hRequestMatcher_spec [OF valid run]
  then have "p \<in> dom (matchers h')" using valid(2) by (auto dest: extends_matchers)
  with spec valid show ?thesis
    by (simp add: r s run validConfig_def configOf_def extends_absMatcher)
qed

interpretation heapMatcher: matcher_source validConfig configOf serveRequest
  by unfold_locales (simp_all add: serveRequest_spec)

section \<open>Properties\<close>

text \<open>
  C14: the pointer program refines the matcher operations. From any valid store, deriving a
  request's matcher through pointers (with Clone, EmptyMatcher and the in-place deletion of the
  migration) yields a pointer to exactly the matcher that the operations on values compute, and
  every array, map and Matcher struct that existed before is in the new store, unchanged.
\<close>

theorem hRequestMatcher_refines:
  assumes "validStore h" and "p \<in> dom (matchers h)"
    and "hRequestMatcher viaq tenant groups sels p h = (q, h')"
  shows "absMatcher h' q = requestMatcher (absMatcher h p) viaq tenant groups sels
    \<and> extends h h' \<and> validStore h'"
  using hRequestMatcher_spec [OF assms] by simp

definition exampleStore :: store where
  "exampleStore = \<lparr>arrays = [1 \<mapsto> [kubernetes_namespace_name, k8s_namespace_name]],
     maps = [2 \<mapsto> [''tenantB'' \<mapsto> ()]],
     matchers = [0 \<mapsto> \<lparr>hKeys = Some \<lparr>array = 1, len = 2\<rparr>, hMatcherOp = ''or'',
        hSkipTenants = Some 2, hAdminGroups = None\<rparr>], nextAddr = 3\<rparr>"

lemma validStore_exampleStore: "validStore exampleStore" "0 \<in> dom (matchers exampleStore)"
  by (auto simp: exampleStore_def validStore_def validObj_def validSlice_def validMap_def ran_def
      split: if_splits)

theorem hRequestMatcher_refines_witness:
  "absMatcher (snd (hRequestMatcher True ''tenantA'' [] [] 0 exampleStore))
     (fst (hRequestMatcher True ''tenantA'' [] [] 0 exampleStore)) =
   requestMatcher (absMatcher exampleStore 0) True ''tenantA'' [] []
   \<and> Keys (requestMatcher (absMatcher exampleStore 0) True ''tenantA'' [] []) = [kubernetes_namespace_name]"
proof -
  have "absMatcher exampleStore 0 = \<lparr>Keys = [kubernetes_namespace_name, k8s_namespace_name],
      MatcherOp = ''or'', skipTenants = [''tenantB'' \<mapsto> ()], adminGroups = Map.empty\<rparr>"
    by (simp add: absMatcher_def objAt_def exampleStore_def sliceVal_def arrayAt_def mapAt_def
        numeral_2_eq_2)
  then have "Keys (requestMatcher (absMatcher exampleStore 0) True ''tenantA'' [] []) = [kubernetes_namespace_name]"
    by (simp add: requestMatcher_def Let_def ForRequest_eq exempt_def IsEmpty_iff
        ViaQToOTELMigration_eq hasValues_def)
  moreover note hRequestMatcher_refines [OF validStore_exampleStore, of True "''tenantA''" "[]" "[]"]
  ultimately show ?thesis by (metis surjective_pairing)
qed

text \<open>
  C6: requests do not disturb each other. However many requests are served from the matcher
  built at start-up, each gets the matcher it would get from the untouched configuration, and
  the configuration is the same afterwards.
\<close>

theorem serveRequests_isolated:
  assumes "validConfig s"
  shows "fst (serveAll serveRequest rs s) = map (answer (configOf s)) rs
    \<and> configOf (snd (serveAll serveRequest rs s)) = configOf s"
  using heapMatcher.serveAll_isolated [OF assms] by simp

theorem serveRequests_isolated_witness:
  "fst (serveAll serveRequest [(True, ''tenantA'', [], []), (True, ''tenantB'', [], [])] (0, exampleStore))
     = map (answer (configOf (0, exampleStore))) [(True, ''tenantA'', [], []), (True, ''tenantB'', [], [])]
   \<and> configOf (snd (serveAll serveRequest [(True, ''tenantA'', [], []), (True, ''tenantB'', [], [])]
       (0, exampleStore))) = configOf (0, exampleStore)"
proof -
  have "validConfig (0, exampleStore)"
    using validStore_exampleStore by (simp add: validConfig_def)
  then show ?thesis by (rule serveRequests_isolated)
qed

end
