(* ===== verification/Go_Utf8.thy ===== *)
theory Go_Utf8
  imports Go_Prelude
begin

text \<open>
  UTF-8 as Go's packages unicode/utf8 and encoding/json see it, over strings of bytes.
  \<open>utf8Size s\<close> is the size of the well-formed encoding \<open>s\<close> starts with (the second result of
  utf8.DecodeRune), and 0 where DecodeRune reports an invalid encoding.
\<close>

abbreviation byteVal :: "char \<Rightarrow> nat" where
  "byteVal c \<equiv> of_char c"

definition inRange :: "nat \<Rightarrow> nat \<Rightarrow> char \<Rightarrow> bool" where
  "inRange lo hi c \<longleftrightarrow> lo \<le> byteVal c \<and> byteVal c \<le> hi"

abbreviation isCont :: "char \<Rightarrow> bool" where
  "isCont \<equiv> inRange 0x80 0xBF"

text \<open>The range of the second byte, by the first (no overlong forms, surrogates or values above 10FFFF).\<close>

definition secondOk :: "char \<Rightarrow> char \<Rightarrow> bool" where
  "secondOk c d = (if c = CHR 0xE0 then inRange 0xA0 0xBF d
     else if c = CHR 0xED then inRange 0x80 0x9F d
     else if c = CHR 0xF0 then inRange 0x90 0xBF d
     else if c = CHR 0xF4 then inRange 0x80 0x8F d
     else isCont d)"

definition utf8Size :: "string \<Rightarrow> nat" where
  "utf8Size s = (case s of
      [] \<Rightarrow> 0
    | c # t \<Rightarrow>
        if byteVal c < 0x80 then 1
        else if inRange 0xC2 0xDF c then
          (case t of d # _ \<Rightarrow> if isCont d then 2 else 0 | _ \<Rightarrow> 0)
        else if inRange 0xE0 0xEF c then
          (case t of d # e # _ \<Rightarrow> if secondOk c d \<and> isCont e then 3 else 0 | _ \<Rightarrow> 0)
        else if inRange 0xF0 0xF4 c then
          (case t of d # e # f # _ \<Rightarrow> if secondOk c d \<and> isCont e \<and> isCont f then 4 else 0 | _ \<Rightarrow> 0)
        else 0)"

text \<open>utf8.ValidString.\<close>

fun validUtf8 :: "string \<Rightarrow> bool" where
  "validUtf8 [] = True"
| "validUtf8 (c # t) = (0 < utf8Size (c # t) \<and> validUtf8 (drop (utf8Size (c # t) - 1) t))"

text \<open>utf8.AppendRune, for code points up to 10FFFF that are no surrogates.\<close>

definition encodeRune :: "nat \<Rightarrow> string" where
  "encodeRune r =
     (if r < 0x80 then [char_of r]
      else if r < 0x800 then [char_of (0xC0 + r div 64), char_of (0x80 + r mod 64)]
      else if r < 0x10000 then
        [char_of (0xE0 + r div 4096), char_of (0x80 + r div 64 mod 64), char_of (0x80 + r mod 64)]
      else [char_of (0xF0 + r div 262144), char_of (0x80 + r div 4096 mod 64),
            char_of (0x80 + r div 64 mod 64), char_of (0x80 + r mod 64)])"

text \<open>The encoding of U+FFFD, which replaces what is not valid.\<close>

definition runeError :: string where
  "runeError = [CHR 0xEF, CHR 0xBF, CHR 0xBD]"

section \<open>Lemmas\<close>

lemma utf8Size_le: "utf8Size s \<le> length s"
  by (auto simp: utf8Size_def split: list.split)

lemma utf8Size_ascii: "byteVal c < 0x80 \<Longrightarrow> utf8Size (c # t) = 1"
  by (simp add: utf8Size_def)

lemma utf8Size_zero_ascii: "utf8Size (c # t) = 0 \<Longrightarrow> 0x80 \<le> byteVal c"
  by (auto simp: utf8Size_def split: if_splits)

text \<open>The four shapes of a well-formed encoding.\<close>

lemma utf8Size_shapes:
  assumes "0 < utf8Size (c # u)"
  obtains (one) "byteVal c < 0x80" "utf8Size (c # u) = 1"
  | (two) d v where "u = d # v" "\<not> byteVal c < 0x80" "inRange 0xC2 0xDF c" "isCont d"
      "utf8Size (c # u) = 2"
  | (three) d e v where "u = d # e # v" "\<not> byteVal c < 0x80" "\<not> inRange 0xC2 0xDF c"
      "inRange 0xE0 0xEF c" "secondOk c d" "isCont e" "utf8Size (c # u) = 3"
  | (four) d e f v where "u = d # e # f # v" "\<not> byteVal c < 0x80" "\<not> inRange 0xC2 0xDF c"
      "\<not> inRange 0xE0 0xEF c" "inRange 0xF0 0xF4 c" "secondOk c d" "isCont e" "isCont f"
      "utf8Size (c # u) = 4"
proof (cases "byteVal c < 0x80")
  case True
  then show ?thesis by (rule one) (simp add: utf8Size_ascii True)
next
  case not1: False
  show ?thesis
  proof (cases "inRange 0xC2 0xDF c")
    case True
    with assms not1 obtain d v where "u = d # v" "isCont d" "utf8Size (c # u) = 2"
      by (cases u) (auto simp: utf8Size_def split: if_splits)
    with not1 True two show ?thesis by blast
  next
    case not2: False
    show ?thesis
    proof (cases "inRange 0xE0 0xEF c")
      case True
      with assms not1 not2 obtain d e v
        where "u = d # e # v" "secondOk c d" "isCont e" "utf8Size (c # u) = 3"
        by (cases u rule: remdups_adj.cases) (auto simp: utf8Size_def split: if_splits)
      with not1 not2 True three show ?thesis by blast
    next
      case not3: False
      with assms not1 not2 have r: "inRange 0xF0 0xF4 c" by (simp add: utf8Size_def split: if_splits)
      with assms not1 not2 not3 obtain d e f v
        where "u = d # e # f # v" "secondOk c d" "isCont e" "isCont f" "utf8Size (c # u) = 4"
        by (auto simp: utf8Size_def split: list.splits if_splits)
      with not1 not2 not3 r four show ?thesis by blast
    qed
  qed
qed

text \<open>The size depends on the bytes of the encoding only.\<close>

lemma utf8Size_take_append:
  assumes "0 < utf8Size s"
  shows "utf8Size (take (utf8Size s) s @ t) = utf8Size s"
proof (cases s)
  case Nil
  with assms show ?thesis by (simp add: utf8Size_def)
next
  case (Cons c u)
  from assms [unfolded Cons] show ?thesis
  proof (cases rule: utf8Size_shapes)
    case one
    then show ?thesis by (simp add: Cons utf8Size_ascii)
  next
    case two
    then show ?thesis by (simp add: Cons) (simp add: utf8Size_def)
  next
    case three
    then show ?thesis by (simp add: Cons) (simp add: utf8Size_def)
  next
    case four
    then show ?thesis by (simp add: Cons) (simp add: utf8Size_def)
  qed
qed

lemma validUtf8_append_encoding:
  "0 < utf8Size s \<Longrightarrow> validUtf8 t \<Longrightarrow> validUtf8 (take (utf8Size s) s @ t)"
proof (cases s)
  case Nil
  assume "0 < utf8Size s"
  with Nil show ?thesis by (simp add: utf8Size_def)
next
  case (Cons c u)
  assume s: "0 < utf8Size s" and t: "validUtf8 t"
  have take: "take (utf8Size s) s @ t = c # (take (utf8Size s - 1) u @ t)"
    using s Cons by (cases "utf8Size s") auto
  have "utf8Size (c # (take (utf8Size s - 1) u @ t)) = utf8Size s"
    using utf8Size_take_append [OF s] take by simp
  moreover have "length (take (utf8Size s - 1) u) = utf8Size s - 1"
    using utf8Size_le [of s] Cons by simp
  ultimately show ?thesis using s t take by simp
qed

lemma validUtf8_append: "validUtf8 s \<Longrightarrow> validUtf8 t \<Longrightarrow> validUtf8 (s @ t)"
proof (induction s rule: validUtf8.induct)
  case (2 c u)
  let ?n = "utf8Size (c # u)"
  from "2.prems" have n: "0 < ?n" and d: "validUtf8 (drop (?n - 1) u)" by simp_all
  have "take ?n (c # u) @ drop (?n - 1) u @ t = (c # u) @ t"
    using n by (cases ?n) auto
  with validUtf8_append_encoding [OF n, of "drop (?n - 1) u @ t"] "2.IH" d "2.prems"
  show ?case by metis
qed simp

lemma validUtf8_ascii: "(\<And>c. c \<in> set s \<Longrightarrow> byteVal c < 0x80) \<Longrightarrow> validUtf8 s"
  by (induction s) (auto simp: utf8Size_ascii)

lemma validUtf8_join: "validUtf8 sep \<Longrightarrow> (\<And>x. x \<in> set xs \<Longrightarrow> validUtf8 x) \<Longrightarrow> validUtf8 (join sep xs)"
  by (induction xs rule: induct_list012) (auto intro: validUtf8_append)

end
