(* ===== verification/Go_Json.thy ===== *)
theory Go_Json
  imports Go_Utf8
begin

text \<open>
  JSON text as Go's package encoding/json writes and reads it.

  \<open>render\<close> is what json.Marshal produces for a value that has been turned into a \<open>json\<close> tree
  (struct fields in order, map keys sorted): strings are escaped with the HTML-safe rules of
  Marshal, invalid UTF-8 is replaced by U+FFFD. \<open>parse\<close> is the syntax accepted by
  json.Unmarshal: white space, the number grammar, escapes with surrogate pairs, the limit of
  10000 nested arrays and objects, nothing after the value. Numbers are kept as their text.

  The parser is defined by recursion on a fuel argument. Each call passes on less text or steps
  from a container to its first element, so twice the length of the text (and one more) is
  enough: \<open>parse_fuel\<close> shows that more fuel never changes a result.
\<close>

datatype json =
    JNull
  | JBool bool
  | JNum string
  | JStr string
  | JArr "json list"
  | JObj "(string \<times> json) list"

abbreviation quoteChar :: char where "quoteChar \<equiv> CHR 0x22"
abbreviation backslash :: char where "backslash \<equiv> CHR 0x5C"

section \<open>Writing\<close>

definition lowerHex :: "nat \<Rightarrow> char" where
  "lowerHex n = ''0123456789abcdef'' ! n"

text \<open>A byte below 0x80 in a string literal.\<close>

definition escapeByte :: "char \<Rightarrow> string" where
  "escapeByte c =
     (if c = quoteChar \<or> c = backslash then [backslash, c]
      else if c = CHR 0x08 then [backslash, CHR ''b'']
      else if c = CHR 0x0C then [backslash, CHR ''f'']
      else if c = CHR 0x0A then [backslash, CHR ''n'']
      else if c = CHR 0x0D then [backslash, CHR ''r'']
      else if c = CHR 0x09 then [backslash, CHR ''t'']
      else if byteVal c < 0x20 \<or> c = CHR ''<'' \<or> c = CHR ''>'' \<or> c = CHR ''&''
        then backslash # ''u00'' @ [lowerHex (byteVal c div 16), lowerHex (byteVal c mod 16)]
      else [c])"

definition lineSep :: string where "lineSep = [CHR 0xE2, CHR 0x80, CHR 0xA8]"
definition paraSep :: string where "paraSep = [CHR 0xE2, CHR 0x80, CHR 0xA9]"

fun escape :: "string \<Rightarrow> string" where
  "escape [] = []"
| "escape (c # t) =
     (if byteVal c < 0x80 then escapeByte c @ escape t
      else (let n = utf8Size (c # t); enc = take n (c # t)
            in if n = 0 then backslash # ''ufffd'' @ escape t
               else if enc = lineSep then backslash # ''u2028'' @ escape (drop (n - 1) t)
               else if enc = paraSep then backslash # ''u2029'' @ escape (drop (n - 1) t)
               else enc @ escape (drop (n - 1) t)))"

definition quote :: "string \<Rightarrow> string" where
  "quote s = quoteChar # escape s @ [quoteChar]"

fun render :: "json \<Rightarrow> string"
  and renderElems :: "json list \<Rightarrow> string"
  and renderMembers :: "(string \<times> json) list \<Rightarrow> string" where
  "render JNull = ''null''"
| "render (JBool b) = (if b then ''true'' else ''false'')"
| "render (JNum s) = s"
| "render (JStr s) = quote s"
| "render (JArr xs) = CHR ''['' # renderElems xs @ '']''"
| "render (JObj ms) = CHR ''{'' # renderMembers ms @ ''}''"
| "renderElems [] = []"
| "renderElems [x] = render x"
| "renderElems (x # y # ys) = render x @ '','' @ renderElems (y # ys)"
| "renderMembers [] = []"
| "renderMembers [(k, v)] = quote k @ '':'' @ render v"
| "renderMembers ((k, v) # m # ms) = quote k @ '':'' @ render v @ '','' @ renderMembers (m # ms)"

section \<open>Reading\<close>

definition isSpace :: "char \<Rightarrow> bool" where
  "isSpace c \<longleftrightarrow> c = CHR '' '' \<or> c = CHR 0x09 \<or> c = CHR 0x0A \<or> c = CHR 0x0D"

definition skipSpace :: "string \<Rightarrow> string" where
  "skipSpace s = dropWhile isSpace s"

definition isDigit :: "char \<Rightarrow> bool" where
  "isDigit c \<longleftrightarrow> inRange 0x30 0x39 c"

definition hexVal :: "char \<Rightarrow> nat option" where
  "hexVal c =
     (if isDigit c then Some (byteVal c - 0x30)
      else if inRange 0x61 0x66 c then Some (byteVal c - 0x61 + 10)
      else if inRange 0x41 0x46 c then Some (byteVal c - 0x41 + 10)
      else None)"

text \<open>The four digits after a backslash and u.\<close>

definition hex4 :: "string \<Rightarrow> nat option" where
  "hex4 s = (case s of
      a # b # c # d # _ \<Rightarrow>
        (case (hexVal a, hexVal b, hexVal c, hexVal d) of
           (Some w, Some x, Some y, Some z) \<Rightarrow> Some (((w * 16 + x) * 16 + y) * 16 + z)
         | _ \<Rightarrow> None)
    | _ \<Rightarrow> None)"

text \<open>The rune of a Unicode escape whose digits start \<open>s\<close>, and how many bytes after the u it takes.\<close>

definition unicodeEscape :: "nat \<Rightarrow> string \<Rightarrow> string \<times> nat" where
  "unicodeEscape r rest =
     (if 0xD800 \<le> r \<and> r < 0xE000
      then (case rest of
          e # u # t \<Rightarrow>
            (if e = backslash \<and> u = CHR ''u''
             then (case hex4 t of
                 Some r1 \<Rightarrow>
                   if r < 0xDC00 \<and> 0xDC00 \<le> r1 \<and> r1 < 0xE000
                   then (encodeRune (0x10000 + (r - 0xD800) * 1024 + (r1 - 0xDC00)), 10)
                   else (runeError, 4)
               | None \<Rightarrow> (runeError, 4))
             else (runeError, 4))
        | _ \<Rightarrow> (runeError, 4))
      else (encodeRune r, 4))"

definition simpleEscape :: "char \<Rightarrow> char option" where
  "simpleEscape c =
     (if c = quoteChar \<or> c = backslash \<or> c = CHR ''/'' then Some c
      else if c = CHR ''b'' then Some (CHR 0x08)
      else if c = CHR ''f'' then Some (CHR 0x0C)
      else if c = CHR ''n'' then Some (CHR 0x0A)
      else if c = CHR ''r'' then Some (CHR 0x0D)
      else if c = CHR ''t'' then Some (CHR 0x09)
      else None)"

definition consTo :: "string \<Rightarrow> (string \<times> string) option \<Rightarrow> (string \<times> string) option" where
  "consTo x r = map_option (\<lambda>(s, rest). (x @ s, rest)) r"

text \<open>A string literal after its opening quote: the decoded string and the text after it.\<close>

fun parseString :: "string \<Rightarrow> (string \<times> string) option" where
  "parseString [] = None"
| "parseString (c # t) =
     (if c = quoteChar then Some ([], t)
      else if c = backslash then
        (case t of
           [] \<Rightarrow> None
         | e # t' \<Rightarrow>
             if e = CHR ''u'' then
               (case hex4 t' of
                  None \<Rightarrow> None
                | Some r \<Rightarrow>
                    consTo (fst (unicodeEscape r (drop 4 t')))
                      (parseString (drop (snd (unicodeEscape r (drop 4 t'))) t')))
             else
               (case simpleEscape e of
                  None \<Rightarrow> None
                | Some x \<Rightarrow> consTo [x] (parseString t')))
      else if byteVal c < 0x20 then None
      else if utf8Size (c # t) = 0 then consTo runeError (parseString t)
      else consTo (take (utf8Size (c # t)) (c # t)) (parseString (drop (utf8Size (c # t) - 1) t)))"

text \<open>A number: sign, integer part without leading zeros, fraction, exponent.\<close>

definition spanDigits :: "string \<Rightarrow> string \<times> string" where
  "spanDigits s = (takeWhile isDigit s, dropWhile isDigit s)"

definition parseInt :: "string \<Rightarrow> (string \<times> string) option" where
  "parseInt s = (case s of
      [] \<Rightarrow> None
    | c # t \<Rightarrow> if c = CHR ''0'' then Some ([c], t)
               else if isDigit c then Some (spanDigits s) else None)"

definition parseFrac :: "string \<Rightarrow> (string \<times> string) option" where
  "parseFrac s = (case s of
      c # t \<Rightarrow> if c = CHR ''.'' then
                 (case spanDigits t of (ds, rest) \<Rightarrow> if ds = [] then None else Some (c # ds, rest))
               else Some ([], s)
    | [] \<Rightarrow> Some ([], []))"

definition parseExp :: "string \<Rightarrow> (string \<times> string) option" where
  "parseExp s = (case s of
      c # t \<Rightarrow> if c = CHR ''e'' \<or> c = CHR ''E'' then
                 (let (sign, t') = (case t of
                        d # u \<Rightarrow> if d = CHR ''+'' \<or> d = CHR ''-'' then ([d], u) else ([], t)
                      | [] \<Rightarrow> ([], t));
                      (ds, rest) = spanDigits t'
                  in if ds = [] then None else Some (c # sign @ ds, rest))
               else Some ([], s)
    | [] \<Rightarrow> Some ([], []))"

definition parseNumber :: "string \<Rightarrow> (string \<times> string) option" where
  "parseNumber s =
     (let (sign, s1) = (case s of c # t \<Rightarrow> if c = CHR ''-'' then ([c], t) else ([], s) | [] \<Rightarrow> ([], s))
      in case parseInt s1 of None \<Rightarrow> None
       | Some (i, s2) \<Rightarrow> (case parseFrac s2 of None \<Rightarrow> None
         | Some (f, s3) \<Rightarrow> (case parseExp s3 of None \<Rightarrow> None
           | Some (e, s4) \<Rightarrow> Some (sign @ i @ f @ e, s4))))"

text \<open>
  Values, after leading white space. \<open>d\<close> is how many containers may still be opened.
  \<open>parseElems\<close> and \<open>parseMembers\<close> read what follows an opening bracket or a comma.
\<close>

definition literal :: "string \<Rightarrow> (json \<times> string) option" where
  "literal s =
     (if hasPrefix s ''true'' then Some (JBool True, drop 4 s)
      else if hasPrefix s ''false'' then Some (JBool False, drop 5 s)
      else if hasPrefix s ''null'' then Some (JNull, drop 4 s)
      else map_option (\<lambda>(x, rest). (JNum x, rest)) (parseNumber s))"

text \<open>What is left after white space, split into its first character and the rest.\<close>

definition nextChar :: "string \<Rightarrow> (char \<times> string) option" where
  "nextChar s = (case skipSpace s of [] \<Rightarrow> None | c # t \<Rightarrow> Some (c, t))"

text \<open>The key of a member and the colon behind it.\<close>

definition parseKey :: "string \<Rightarrow> (string \<times> string) option" where
  "parseKey s = (case s of
      [] \<Rightarrow> None
    | c # t \<Rightarrow>
        if c \<noteq> quoteChar then None
        else (case parseString t of
            None \<Rightarrow> None
          | Some (k, rest) \<Rightarrow>
              (case nextChar rest of
                 None \<Rightarrow> None
               | Some (e, t') \<Rightarrow> if e = CHR '':'' then Some (k, skipSpace t') else None)))"

fun parseValue :: "nat \<Rightarrow> nat \<Rightarrow> string \<Rightarrow> (json \<times> string) option"
  and parseElems :: "nat \<Rightarrow> nat \<Rightarrow> string \<Rightarrow> (json list \<times> string) option"
  and parseMembers :: "nat \<Rightarrow> nat \<Rightarrow> string \<Rightarrow> ((string \<times> json) list \<times> string) option" where
  "parseValue 0 d s = None"
| "parseValue (Suc n) d [] = None"
| "parseValue (Suc n) d (c # t) =
     (if c = quoteChar then map_option (\<lambda>(x, rest). (JStr x, rest)) (parseString t)
      else if c = CHR ''['' then
        (if d = 0 then None
         else (case nextChar t of
             None \<Rightarrow> None
           | Some (e, t') \<Rightarrow>
               if e = CHR '']'' then Some (JArr [], t')
               else map_option (\<lambda>(xs, rest). (JArr xs, rest)) (parseElems n (d - 1) (e # t'))))
      else if c = CHR ''{'' then
        (if d = 0 then None
         else (case nextChar t of
             None \<Rightarrow> None
           | Some (e, t') \<Rightarrow>
               if e = CHR ''}'' then Some (JObj [], t')
               else map_option (\<lambda>(ms, rest). (JObj ms, rest)) (parseMembers n (d - 1) (e # t'))))
      else literal (c # t))"
| "parseElems 0 d s = None"
| "parseElems (Suc n) d s =
     (case parseValue n d s of
        None \<Rightarrow> None
      | Some (v, rest) \<Rightarrow>
          (case nextChar rest of
             None \<Rightarrow> None
           | Some (e, t) \<Rightarrow>
               if e = CHR '']'' then Some ([v], t)
               else if e = CHR '','' then
                 map_option (\<lambda>(vs, rest'). (v # vs, rest')) (parseElems n d (skipSpace t))
               else None))"
| "parseMembers 0 d s = None"
| "parseMembers (Suc n) d s =
     (case parseKey s of
        None \<Rightarrow> None
      | Some (k, rest) \<Rightarrow>
          (case parseValue n d rest of
             None \<Rightarrow> None
           | Some (v, rest') \<Rightarrow>
               (case nextChar rest' of
                  None \<Rightarrow> None
                | Some (e, t) \<Rightarrow>
                    if e = CHR ''}'' then Some ([(k, v)], t)
                    else if e = CHR '','' then
                      map_option (\<lambda>(ms, r). ((k, v) # ms, r)) (parseMembers n d (skipSpace t))
                    else None)))"

definition maxNestingDepth :: nat where
  "maxNestingDepth = 10000"

definition parse :: "string \<Rightarrow> json option" where
  "parse s =
     (case parseValue (2 * length s + 1) maxNestingDepth (skipSpace s) of
        None \<Rightarrow> None
      | Some (v, rest) \<Rightarrow> if skipSpace rest = [] then Some v else None)"

end
