(* ===== verification/Go_Json_Lemmas.thy ===== *)
theory Go_Json_Lemmas
  imports Go_Json
begin

text \<open>
  The facts about JSON text the development uses: strings and values with natural numbers survive writing
  and reading (\<open>parse_render\<close>), and the fuel of the parser never runs out (\<open>parse_fuel\<close>).
\<close>

section \<open>String literals\<close>

lemma lowerHex_hexVal: "n < 16 \<Longrightarrow> hexVal (lowerHex n) = Some n"
proof -
  assume "n < 16"
  then have "n \<in> set [0..<16]" by simp
  then show ?thesis
    by (simp add: upt_rec [where j = 16] del: upt.simps)
      (auto simp: lowerHex_def hexVal_def isDigit_def inRange_def)
qed

lemma printable_notin:
  "\<not> byteVal c < 0x20 \<Longrightarrow>
   c \<noteq> CHR 0x08 \<and> c \<noteq> CHR 0x0C \<and> c \<noteq> CHR 0x0A \<and> c \<noteq> CHR 0x0D \<and> c \<noteq> CHR 0x09"
  by auto

lemma escapeByte_plain:
  "\<not> byteVal c < 0x20 \<Longrightarrow> c \<noteq> quoteChar \<Longrightarrow> c \<noteq> backslash \<Longrightarrow>
   c \<notin> {CHR ''<'', CHR ''>'', CHR ''&''} \<Longrightarrow> escapeByte c = [c]"
  using printable_notin [of c] by (simp add: escapeByte_def)

lemma escapeByte_parse:
  assumes "byteVal c < 0x80"
  shows "parseString (escapeByte c @ X) = consTo [c] (parseString X)"
proof -
  have hex: "hex4 (CHR ''0'' # CHR ''0'' # lowerHex (byteVal c div 16) # lowerHex (byteVal c mod 16) # X)
      = Some (byteVal c)"
  proof -
    have z: "hexVal (CHR ''0'') = Some 0" by (simp add: hexVal_def isDigit_def inRange_def)
    have "byteVal c div 16 < 16" "byteVal c mod 16 < 16" using assms by auto
    then show ?thesis by (simp add: hex4_def z lowerHex_hexVal)
  qed
  have enc: "encodeRune (byteVal c) = [c]" using assms by (simp add: encodeRune_def)
  have "\<not> (0xD800 \<le> byteVal c)" using assms by simp
  then have uni: "unicodeEscape (byteVal c) X = ([c], 4)" by (simp add: unicodeEscape_def enc)
  show ?thesis
  proof (cases "byteVal c < 0x20 \<or> c = CHR ''<'' \<or> c = CHR ''>'' \<or> c = CHR ''&''")
    case True
    then show ?thesis
      by (auto simp: escapeByte_def simpleEscape_def hex uni)
  next
    case False
    show ?thesis
    proof (cases "c = quoteChar \<or> c = backslash")
      case True
      then show ?thesis by (auto simp: escapeByte_def simpleEscape_def)
    next
      case plain: False
      with False have "escapeByte c = [c]" by (intro escapeByte_plain) simp_all
      moreover have "parseString (c # X) = consTo [c] (parseString X)"
        by (subst parseString.simps) (use plain False in \<open>simp add: utf8Size_ascii [OF assms]\<close>)
      ultimately show ?thesis by simp
    qed
  qed
qed

lemma hexVal_2028: "hex4 (CHR ''2'' # CHR ''0'' # CHR ''2'' # CHR ''8'' # X) = Some 0x2028"
  and hexVal_2029: "hex4 (CHR ''2'' # CHR ''0'' # CHR ''2'' # CHR ''9'' # X) = Some 0x2029"
  by (simp_all add: hex4_def hexVal_def isDigit_def inRange_def)

lemma encodeRune_seps: "encodeRune 0x2028 = lineSep" "encodeRune 0x2029 = paraSep"
  by (simp_all add: encodeRune_def lineSep_def paraSep_def char_of_def bit_0)

lemma parseString_separators:
  "parseString (backslash # ''u2028'' @ X) = consTo lineSep (parseString X)"
  "parseString (backslash # ''u2029'' @ X) = consTo paraSep (parseString X)"
  by (simp_all add: hexVal_2028 hexVal_2029 unicodeEscape_def encodeRune_seps)

text \<open>A well-formed encoding of two bytes or more is read as it is.\<close>

lemma parseString_encoding:
  assumes "0 < utf8Size s" and "\<not> byteVal (hd s) < 0x80"
  shows "parseString (take (utf8Size s) s @ X) = consTo (take (utf8Size s) s) (parseString X)"
proof -
  let ?n = "utf8Size s" and ?e = "take (utf8Size s) s"
  from assms(1) obtain c t where s: "s = c # t" by (cases s) (auto simp: utf8Size_def)
  with assms(1) obtain k where k: "?n = Suc k" by (cases ?n) auto
  have len: "length ?e = ?n" using utf8Size_le [of s] by simp
  have size: "utf8Size (?e @ X) = ?n" using utf8Size_take_append [OF assms(1)] .
  have e: "?e @ X = c # (take k t @ X)" using s k by simp
  have "length (take k t) = k" using len s k by simp
  with size e k have drop: "drop (utf8Size (c # take k t @ X) - 1) (take k t @ X) = X"
    and take: "take (utf8Size (c # take k t @ X)) (c # take k t @ X) = ?e"
    and pos: "utf8Size (c # take k t @ X) \<noteq> 0"
    using s by simp_all
  have "c \<noteq> quoteChar" "c \<noteq> backslash" "\<not> byteVal c < 0x20"
    using assms(2) s by auto
  then show ?thesis
    by (subst e, subst parseString.simps) (simp only: drop take pos if_False)
qed

lemma consTo_Some: "r = Some (x, rest) \<Longrightarrow> consTo e r = Some (e @ x, rest)"
  by (simp add: consTo_def)

lemma parseString_escape:
  "validUtf8 s \<Longrightarrow> parseString (escape s @ quoteChar # rest) = Some (s, rest)"
proof (induction s rule: escape.induct)
  case 1
  then show ?case by simp
next
  case (2 c t)
  let ?n = "utf8Size (c # t)"
  from "2.prems" have n: "0 < ?n" and valid: "validUtf8 (drop (?n - 1) t)" by simp_all
  show ?case
  proof (cases "byteVal c < 0x80")
    case True
    with "2.IH"(1) valid utf8Size_ascii [OF True, of t] show ?thesis
      by (simp add: escapeByte_parse consTo_Some)
  next
    case False
    let ?e = "take ?n (c # t)"
    have split: "?e @ drop (?n - 1) t = c # t" using n by (cases ?n) simp_all
    have tail: "parseString (escape (drop (?n - 1) t) @ quoteChar # rest) = Some (drop (?n - 1) t, rest)"
      using "2.IH"(3-5) False n valid by (cases "?e = lineSep"; cases "?e = paraSep") auto
    have "parseString (escape (c # t) @ quoteChar # rest) =
        consTo ?e (parseString (escape (drop (?n - 1) t) @ quoteChar # rest))"
    proof -
      consider "?e = lineSep" | "?e = paraSep" "?e \<noteq> lineSep" | "?e \<noteq> lineSep" "?e \<noteq> paraSep" by blast
      then show ?thesis
      proof cases
        case 1
        with False n have "escape (c # t) = backslash # ''u2028'' @ escape (drop (?n - 1) t)"
          by (simp add: Let_def)
        with 1 show ?thesis
          using parseString_separators(1) [of "escape (drop (?n - 1) t) @ quoteChar # rest"] by simp
      next
        case 2
        with False n have "escape (c # t) = backslash # ''u2029'' @ escape (drop (?n - 1) t)"
          by (simp add: Let_def)
        with 2 show ?thesis
          using parseString_separators(2) [of "escape (drop (?n - 1) t) @ quoteChar # rest"] by simp
      next
        case 3
        with False n have "escape (c # t) = ?e @ escape (drop (?n - 1) t)"
          by (simp add: Let_def)
        with parseString_encoding [OF n] False show ?thesis by simp
      qed
    qed
    also have "\<dots> = Some (?e @ drop (?n - 1) t, rest)" using tail by (rule consTo_Some)
    finally show ?thesis using split by simp
  qed
qed

section \<open>Values\<close>

text \<open>The decimal text of a natural number, and what may follow it in a text.\<close>

definition natText :: "string \<Rightarrow> bool" where
  "natText s \<longleftrightarrow> s \<noteq> [] \<and> (\<forall>c \<in> set s. isDigit c) \<and> (hd s = CHR ''0'' \<longrightarrow> s = ''0'')"

definition endsNumber :: "string \<Rightarrow> bool" where
  "endsNumber rest \<longleftrightarrow> (case rest of [] \<Rightarrow> True
     | c # t \<Rightarrow> \<not> isDigit c \<and> c \<noteq> CHR ''.'' \<and> c \<noteq> CHR ''e'' \<and> c \<noteq> CHR ''E'')"

lemma endsNumber_simps [simp]:
  "endsNumber []" "endsNumber (CHR '','' # t)" "endsNumber (CHR '']'' # t)" "endsNumber (CHR ''}'' # t)"
  by (simp_all add: endsNumber_def isDigit_def inRange_def)

lemma isDigit_zero: "isDigit (CHR ''0'')"
  by (simp add: isDigit_def inRange_def)

lemma parseNumber_natText:
  assumes "natText s" and "endsNumber rest"
  shows "parseNumber (s @ rest) = Some (s, rest)"
proof -
  from assms(1) obtain c t where s: "s = c # t" and c: "isDigit c" "\<forall>x \<in> set t. isDigit x"
    by (cases s) (auto simp: natText_def)
  have "c \<noteq> CHR ''-''" using c(1) by (auto simp: isDigit_def inRange_def)
  moreover have "parseInt (s @ rest) = Some (s, rest)"
  proof (cases "c = CHR ''0''")
    case True
    with assms(1) s show ?thesis by (simp add: natText_def parseInt_def)
  next
    case False
    have "takeWhile isDigit rest = []" "dropWhile isDigit rest = rest"
      using assms(2) by (cases rest; simp add: endsNumber_def)+
    with False s c show ?thesis by (simp add: parseInt_def spanDigits_def)
  qed
  moreover have "parseFrac rest = Some ([], rest)" "parseExp rest = Some ([], rest)"
    using assms(2) by (cases rest; simp add: endsNumber_def parseFrac_def parseExp_def)+
  ultimately show ?thesis by (simp add: parseNumber_def s)
qed

lemma natText_first:
  assumes "natText s"
  obtains c t where "s = c # t" "\<not> isSpace c" "c \<notin> {quoteChar, CHR ''['', CHR ''{'', CHR '']'', CHR ''t'', CHR ''f'', CHR ''n''}"
proof -
  from assms obtain c t where "s = c # t" "isDigit c" by (cases s) (auto simp: natText_def)
  moreover from this(2) have "\<not> isSpace c"
    "c \<notin> {quoteChar, CHR ''['', CHR ''{'', CHR '']'', CHR ''t'', CHR ''f'', CHR ''n''}"
    by (auto simp: isDigit_def inRange_def isSpace_def)
  ultimately show ?thesis using that by blast
qed

text \<open>Values whose numbers are naturals, with valid strings and at most \<open>d\<close> levels of nesting.\<close>

fun plainJson :: "nat \<Rightarrow> json \<Rightarrow> bool" where
  "plainJson d JNull = True"
| "plainJson d (JBool b) = True"
| "plainJson d (JNum s) = natText s"
| "plainJson d (JStr s) = validUtf8 s"
| "plainJson d (JArr xs) = (0 < d \<and> (\<forall>x \<in> set xs. plainJson (d - 1) x))"
| "plainJson d (JObj ms) = (0 < d \<and> (\<forall>m \<in> set ms. validUtf8 (fst m) \<and> plainJson (d - 1) (snd m)))"

lemma skipSpace_Cons [simp]: "\<not> isSpace c \<Longrightarrow> skipSpace (c # t) = c # t"
  by (simp add: skipSpace_def)

lemma nextChar_Cons [simp]: "\<not> isSpace c \<Longrightarrow> nextChar (c # t) = Some (c, t)"
  by (simp add: nextChar_def)

lemma not_isSpace [simp]:
  "\<not> isSpace quoteChar" "\<not> isSpace (CHR ''['')" "\<not> isSpace (CHR '']'')" "\<not> isSpace (CHR ''{'')"
  "\<not> isSpace (CHR ''}'')" "\<not> isSpace (CHR '','')" "\<not> isSpace (CHR '':'')"
  by (simp_all add: isSpace_def)

lemma render_first:
  assumes "plainJson d v"
  obtains c t where "render v = c # t" "\<not> isSpace c" "c \<noteq> CHR '']''"
proof -
  have "\<exists>c t. render v = c # t \<and> \<not> isSpace c \<and> c \<noteq> CHR '']''"
    using assms by (cases v) (auto simp: quote_def isSpace_def elim: natText_first)
  then show ?thesis using that by blast
qed

lemma render_length: "plainJson d v \<Longrightarrow> 0 < length (render v)"
  by (metis length_greater_0_conv list.distinct(1) render_first)

lemma skipSpace_render: "plainJson d v \<Longrightarrow> skipSpace (render v @ rest) = render v @ rest"
  by (metis append_Cons render_first skipSpace_Cons)

lemma parseKey_quote:
  assumes "validUtf8 k" and "plainJson d v"
  shows "parseKey (quote k @ CHR '':'' # render v @ rest) = Some (k, render v @ rest)"
  using assms by (simp add: parseKey_def quote_def parseString_escape skipSpace_render)

lemma parse_render_all:
  "plainJson d v \<Longrightarrow> 2 * length (render v) \<le> n \<Longrightarrow> endsNumber rest \<Longrightarrow>
     parseValue n d (render v @ rest) = Some (v, rest)"
  "xs \<noteq> [] \<Longrightarrow> \<forall>x \<in> set xs. plainJson d x \<Longrightarrow> 2 * length (renderElems xs) + 1 \<le> n \<Longrightarrow>
     parseElems n d (renderElems xs @ CHR '']'' # rest) = Some (xs, rest)"
  "ms \<noteq> [] \<Longrightarrow> \<forall>m \<in> set ms. validUtf8 (fst m) \<and> plainJson d (snd m) \<Longrightarrow>
     2 * length (renderMembers ms) + 1 \<le> n \<Longrightarrow>
     parseMembers n d (renderMembers ms @ CHR ''}'' # rest) = Some (ms, rest)"
proof (induction v and xs and ms arbitrary: d n rest and d n rest and d n rest
    rule: render_renderElems_renderMembers.induct)
  case 1
  then show ?case by (cases n) (simp_all add: literal_def)
next
  case (2 b)
  then show ?case by (cases n) (simp_all add: literal_def split: if_splits)
next
  case (3 s)
  then have "natText s" by simp
  then obtain c t where c: "s = c # t" "c \<notin> {quoteChar, CHR ''['', CHR ''{'', CHR '']'', CHR ''t'', CHR ''f'', CHR ''n''}"
    by (rule natText_first)
  with 3 have "literal (s @ rest) = Some (JNum s, rest)"
    using parseNumber_natText [of s rest] by (simp add: literal_def)
  with 3 c show ?case by (cases n) simp_all
next
  case (4 s)
  then show ?case by (cases n) (simp_all add: quote_def parseString_escape)
next
  case (5 xs)
  then obtain m where m: "n = Suc m" "2 * length (renderElems xs) + 1 \<le> m" by (cases n) auto
  show ?case
  proof (cases xs)
    case Nil
    with "5.prems" m show ?thesis by simp
  next
    case (Cons x ys)
    with "5.prems" obtain c t where c: "render x = c # t" "\<not> isSpace c" "c \<noteq> CHR '']''"
      by (auto elim: render_first)
    then obtain u where u: "renderElems xs = c # u" by (cases ys) (auto simp: Cons)
    from "5.IH" [of "d - 1" m rest] "5.prems" Cons m
    have "parseElems m (d - 1) (renderElems xs @ CHR '']'' # rest) = Some (xs, rest)" by auto
    with "5.prems" c u m show ?thesis by simp
  qed
next
  case (6 ms)
  then obtain m where m: "n = Suc m" "2 * length (renderMembers ms) + 1 \<le> m" by (cases n) auto
  show ?case
  proof (cases ms)
    case Nil
    with "6.prems" m show ?thesis by simp
  next
    case (Cons x ys)
    then obtain u where u: "renderMembers ms = quoteChar # u"
      by (cases x; cases ys) (auto simp: quote_def)
    from "6.IH" [of "d - 1" m rest] "6.prems" Cons m
    have "parseMembers m (d - 1) (renderMembers ms @ CHR ''}'' # rest) = Some (ms, rest)" by auto
    with "6.prems" u m show ?thesis by simp
  qed
next
  case 7
  then show ?case by simp
next
  case (8 x)
  then obtain m where "n = Suc m" "2 * length (render x) \<le> m" by (cases n) auto
  with 8 show ?case by simp
next
  case (9 x y ys)
  then obtain m where m: "n = Suc m" "2 * length (render x) \<le> m"
      "2 * length (renderElems (y # ys)) + 1 \<le> m" by (cases n) auto
  obtain c t where "render y = c # t" "\<not> isSpace c"
    using "9.prems" by (auto elim: render_first)
  then have skip: "skipSpace (renderElems (y # ys) @ CHR '']'' # rest) = renderElems (y # ys) @ CHR '']'' # rest"
    by (cases ys) simp_all
  have "parseValue m d (render x @ CHR '','' # renderElems (y # ys) @ CHR '']'' # rest)
      = Some (x, CHR '','' # renderElems (y # ys) @ CHR '']'' # rest)"
    using "9.IH"(1) "9.prems" m by simp
  moreover have "parseElems m d (renderElems (y # ys) @ CHR '']'' # rest) = Some (y # ys, rest)"
    using "9.IH"(2) "9.prems" m by simp
  ultimately show ?case using m skip by simp
next
  case 10
  then show ?case by simp
next
  case (11 k v)
  then obtain m where m: "n = Suc m" "2 * length (render v) \<le> m" by (cases n) auto
  with 11 show ?case by (simp add: parseKey_quote [where d = d])
next
  case (12 k v x ys)
  then obtain m where m: "n = Suc m" "2 * length (render v) \<le> m"
      "2 * length (renderMembers (x # ys)) + 1 \<le> m" by (cases n) auto
  have skip: "skipSpace (renderMembers (x # ys) @ CHR ''}'' # rest) = renderMembers (x # ys) @ CHR ''}'' # rest"
    by (cases x; cases ys) (simp_all add: quote_def)
  have "parseValue m d (render v @ CHR '','' # renderMembers (x # ys) @ CHR ''}'' # rest)
      = Some (v, CHR '','' # renderMembers (x # ys) @ CHR ''}'' # rest)"
    using "12.IH"(1) "12.prems" m by simp
  moreover have "parseMembers m d (renderMembers (x # ys) @ CHR ''}'' # rest) = Some (x # ys, rest)"
    using "12.IH"(2) "12.prems" m by simp
  ultimately show ?case using m skip "12.prems" by (simp add: parseKey_quote [where d = d])
qed

lemma parse_render: "plainJson maxNestingDepth v \<Longrightarrow> parse (render v) = Some v"
  using parse_render_all(1) [of maxNestingDepth v "2 * length (render v) + 1" "[]"]
    skipSpace_render [of maxNestingDepth v "[]"]
  by (simp add: parse_def skipSpace_def)

section \<open>What is written is UTF-8\<close>

lemma lowerHex_ascii: "n < 16 \<Longrightarrow> byteVal (lowerHex n) < 0x80"
proof -
  assume "n < 16"
  then have "lowerHex n \<in> set ''0123456789abcdef''"
    unfolding lowerHex_def by (intro nth_mem) simp
  then show ?thesis by auto
qed

lemma escapeByte_ascii:
  assumes "byteVal c < 0x80"
  shows "validUtf8 (escapeByte c)"
proof (rule validUtf8_ascii)
  fix d
  assume "d \<in> set (escapeByte c)"
  then have "d \<in> {c, backslash, quoteChar, CHR ''b'', CHR ''f'', CHR ''n'', CHR ''r'', CHR ''t'',
      CHR ''u'', CHR ''0'', lowerHex (byteVal c div 16), lowerHex (byteVal c mod 16)}"
    by (auto simp: escapeByte_def split: if_splits)
  moreover have "byteVal (lowerHex (byteVal c div 16)) < 0x80" "byteVal (lowerHex (byteVal c mod 16)) < 0x80"
    using assms by (auto intro!: lowerHex_ascii)
  ultimately show "byteVal d < 0x80"
    using assms by (auto simp del: One_nat_def)
qed

lemma validUtf8_escape: "validUtf8 (escape s)"
proof (induction s rule: escape.induct)
  case (2 c t)
  let ?n = "utf8Size (c # t)"
  have lits: "validUtf8 (backslash # ''ufffd'')" "validUtf8 (backslash # ''u2028'')"
    "validUtf8 (backslash # ''u2029'')"
    by (rule validUtf8_ascii; auto)+
  show ?case
  proof (cases "byteVal c < 0x80")
    case True
    with 2 show ?thesis by (simp add: validUtf8_append escapeByte_ascii)
  next
    case False
    show ?thesis
    proof (cases "?n = 0")
      case True
      with False 2 have "validUtf8 (escape t)" by (simp add: Let_def)
      with True False validUtf8_append [OF lits(1)] show ?thesis by simp
    next
      case n: False
      with False have ih: "validUtf8 (escape (drop (?n - 1) t))"
        using "2.IH"(3-5) by (cases "take ?n (c # t) = lineSep"; cases "take ?n (c # t) = paraSep") auto
      from n have "validUtf8 (take ?n (c # t) @ escape (drop (?n - 1) t))"
        using ih by (intro validUtf8_append_encoding) simp_all
      with n False show ?thesis
        using validUtf8_append [OF lits(2) ih] validUtf8_append [OF lits(3) ih]
        by (simp add: Let_def)
    qed
  qed
qed simp

lemma validUtf8_Cons: "byteVal c < 0x80 \<Longrightarrow> validUtf8 (c # s) = validUtf8 s"
  by (simp add: utf8Size_ascii)

lemma validUtf8_quote: "validUtf8 (quote s)"
  unfolding quote_def
  by (subst validUtf8_Cons) (auto intro!: validUtf8_append validUtf8_escape simp: utf8Size_ascii)

lemma natText_utf8: "natText s \<Longrightarrow> validUtf8 s"
  by (rule validUtf8_ascii) (auto simp: natText_def isDigit_def inRange_def)

lemma validUtf8_render_all:
  "plainJson d v \<Longrightarrow> validUtf8 (render v)"
  "\<forall>x \<in> set xs. plainJson d x \<Longrightarrow> validUtf8 (renderElems xs)"
  "\<forall>m \<in> set ms. plainJson d (snd m) \<Longrightarrow> validUtf8 (renderMembers ms)"
proof (induction v and xs and ms arbitrary: d and d and d
    rule: render_renderElems_renderMembers.induct)
  case (5 xs)
  then have "validUtf8 (renderElems xs)" by auto
  then have "validUtf8 (renderElems xs @ '']'')"
    by (rule validUtf8_append) (simp add: utf8Size_ascii)
  then show ?case by (simp add: utf8Size_ascii)
next
  case (6 ms)
  then have "validUtf8 (renderMembers ms)" by auto
  then have "validUtf8 (renderMembers ms @ ''}'')"
    by (rule validUtf8_append) (simp add: utf8Size_ascii)
  then show ?case by (simp add: utf8Size_ascii)
next
  case (9 x y ys)
  then have "validUtf8 (render x)" "validUtf8 ('','' @ renderElems (y # ys))"
    by (auto simp: utf8Size_ascii)
  from validUtf8_append [OF this] show ?case by simp
qed (auto simp: utf8Size_ascii natText_utf8 validUtf8_quote intro!: validUtf8_append)

lemma validUtf8_render: "plainJson d v \<Longrightarrow> validUtf8 (render v)"
  by (rule validUtf8_render_all(1))

section \<open>Enough fuel\<close>

lemma dropWhile_length: "length (dropWhile p s) \<le> length s"
  by (induction s) auto

lemma skipSpace_length: "length (skipSpace s) \<le> length s"
  by (simp add: skipSpace_def dropWhile_length)

lemma nextChar_length: "nextChar s = Some (c, t) \<Longrightarrow> length t < length s"
  using skipSpace_length [of s] by (auto simp: nextChar_def split: list.splits)

lemma parseString_length: "parseString s = Some (x, rest) \<Longrightarrow> length rest < length s"
proof (induction s arbitrary: x rest rule: parseString.induct)
  case 1
  then show ?case by simp
next
  case (2 c t)
  have "length rest \<le> length t"
  proof (cases "c = quoteChar")
    case True
    with "2.prems" show ?thesis by simp
  next
    case False
    note step = this
    show ?thesis
    proof (cases "c = backslash")
      case True
      with "2.prems" step obtain e t' where t: "t = e # t'" by (cases t) auto
      show ?thesis
      proof (cases "e = CHR ''u''")
        case u: True
        with "2.prems" step True t obtain r where r: "hex4 t' = Some r" by (cases "hex4 t'") auto
        with "2.prems" step True t u obtain y where
          "parseString (drop (snd (unicodeEscape r (drop 4 t'))) t') = Some (y, rest)"
          by (auto simp: consTo_def)
        from "2.IH"(1) [OF step True t u r this] show ?thesis by (simp add: t)
      next
        case u: False
        with "2.prems" step True t obtain z where z: "simpleEscape e = Some z"
          by (cases "simpleEscape e") auto
        with "2.prems" step True t u obtain y where "parseString t' = Some (y, rest)"
          by (auto simp: consTo_def)
        from "2.IH"(2) [OF step True t u z this] show ?thesis by (simp add: t)
      qed
    next
      case plain: False
      with "2.prems" step have ge: "\<not> byteVal c < 0x20" by (auto split: if_splits)
      show ?thesis
      proof (cases "utf8Size (c # t) = 0")
        case True
        with "2.prems" step plain ge obtain y where "parseString t = Some (y, rest)"
          by (auto simp: consTo_def)
        from "2.IH"(3) [OF step plain ge True this] show ?thesis by simp
      next
        case size: False
        with "2.prems" step plain ge obtain y where
          "parseString (drop (utf8Size (c # t) - 1) t) = Some (y, rest)"
          by (auto simp: consTo_def)
        from "2.IH"(4) [OF step plain ge size this] show ?thesis by simp
      qed
    qed
  qed
  then show ?case by simp
qed

lemma parseFrac_length: "parseFrac s = Some (x, rest) \<Longrightarrow> length rest \<le> length s"
  using dropWhile_length [of isDigit "tl s"]
  by (cases s) (auto simp: parseFrac_def spanDigits_def split: if_splits)

lemma parseExp_length: "parseExp s = Some (x, rest) \<Longrightarrow> length rest \<le> length s"
proof (cases s)
  case (Cons c t)
  assume "parseExp s = Some (x, rest)"
  with Cons show ?thesis
    using dropWhile_length [of isDigit t] dropWhile_length [of isDigit "tl t"]
    by (cases t) (auto simp: parseExp_def spanDigits_def Let_def split: if_splits)
qed (simp add: parseExp_def)

lemma parseInt_length: "parseInt s = Some (x, rest) \<Longrightarrow> length rest < length s"
proof (cases s)
  case (Cons c t)
  assume "parseInt s = Some (x, rest)"
  with Cons show ?thesis
    using dropWhile_length [of isDigit t]
    by (auto simp: parseInt_def spanDigits_def split: if_splits)
qed (simp add: parseInt_def)

lemma parseNumber_length: "parseNumber s = Some (x, rest) \<Longrightarrow> length rest < length s"
  by (auto simp: parseNumber_def Let_def split: list.splits if_splits option.splits prod.splits
      dest!: parseInt_length parseFrac_length parseExp_length)

lemma literal_length: "literal s = Some (v, rest) \<Longrightarrow> length rest < length s"
  by (auto simp: literal_def hasPrefix_iff split: if_splits dest: parseNumber_length)

lemma parseKey_length: "parseKey s = Some (k, rest) \<Longrightarrow> length rest < length s"
proof -
  assume "parseKey s = Some (k, rest)"
  then obtain c t r u where "s = c # t" "parseString t = Some (k, r)" "nextChar r = Some (CHR '':'', u)"
      "rest = skipSpace u"
    by (auto simp: parseKey_def split: list.splits if_splits option.splits)
  with skipSpace_length [of u] show ?thesis
    by (auto dest!: parseString_length nextChar_length)
qed

lemma parse_length:
  "parseValue n d s = Some (v, rest) \<Longrightarrow> length rest < length s"
  "parseElems n d s = Some (vs, rest) \<Longrightarrow> length rest < length s"
  "parseMembers n d s = Some (ms, rest) \<Longrightarrow> length rest < length s"
proof (induction n d s and n d s and n d s arbitrary: v rest and vs rest and ms rest
    rule: parseValue_parseElems_parseMembers.induct)
  case (3 n d c t)
  consider "c = quoteChar" | "c = CHR ''[''" | "c = CHR ''{''"
    | "c \<noteq> quoteChar" "c \<noteq> CHR ''[''" "c \<noteq> CHR ''{''" by blast
  then show ?case
  proof cases
    case 1
    with "3.prems" show ?thesis by (auto dest: parseString_length)
  next
    case 2
    with "3.prems" have d: "d \<noteq> 0" by (auto split: if_splits)
    with "3.prems" 2 obtain e t' where nx: "nextChar t = Some (e, t')" by (cases "nextChar t") auto
    show ?thesis
    proof (cases "e = CHR '']''")
      case True
      with "3.prems" 2 nx d show ?thesis by (auto dest: nextChar_length)
    next
      case False
      with "3.prems" 2 nx d obtain xs where "parseElems n (d - 1) (e # t') = Some (xs, rest)" by auto
      with "3.IH"(1) [OF _ 2 d nx _ False] 2 have "length rest < Suc (length t')" by auto
      with nextChar_length [OF nx] show ?thesis by simp
    qed
  next
    case 3
    with "3.prems" have d: "d \<noteq> 0" by (auto split: if_splits)
    with "3.prems" 3 obtain e t' where nx: "nextChar t = Some (e, t')" by (cases "nextChar t") auto
    show ?thesis
    proof (cases "e = CHR ''}''")
      case True
      with "3.prems" 3 nx d show ?thesis by (auto dest: nextChar_length)
    next
      case False
      with "3.prems" 3 nx d obtain xs where "parseMembers n (d - 1) (e # t') = Some (xs, rest)" by auto
      with "3.IH"(2) [OF _ _ 3 d nx _ False] 3 have "length rest < Suc (length t')" by auto
      with nextChar_length [OF nx] show ?thesis by simp
    qed
  next
    case 4
    with "3.prems" show ?thesis by (auto dest: literal_length)
  qed
next
  case (5 n d s)
  from "5.prems" obtain v r where v: "parseValue n d s = Some (v, r)" by (cases "parseValue n d s") auto
  with "5.prems" obtain e t where e: "nextChar r = Some (e, t)" by (cases "nextChar r") auto
  have len: "length t < length s" using "5.IH"(1) [OF v] nextChar_length [OF e] by simp
  show ?case
  proof (cases "e = CHR '']''")
    case True
    with "5.prems" v e len show ?thesis by simp
  next
    case False
    with "5.prems" v e obtain ws where c: "e = CHR '',''" and "parseElems n d (skipSpace t) = Some (ws, rest)"
      by (auto split: if_splits)
    with "5.IH"(2) [OF v _ e _ False c] have "length rest < length (skipSpace t)" by auto
    with skipSpace_length [of t] len show ?thesis by simp
  qed
next
  case (7 n d s)
  from "7.prems" obtain k r0 where k: "parseKey s = Some (k, r0)" by (cases "parseKey s") auto
  with "7.prems" obtain v r where v: "parseValue n d r0 = Some (v, r)" by (cases "parseValue n d r0") auto
  with "7.prems" k obtain e t where e: "nextChar r = Some (e, t)" by (cases "nextChar r") auto
  have len: "length t < length s"
    using "7.IH"(1) [OF k _ v] nextChar_length [OF e] parseKey_length [OF k] by simp
  show ?case
  proof (cases "e = CHR ''}''")
    case True
    with "7.prems" k v e len show ?thesis by simp
  next
    case False
    with "7.prems" k v e obtain ws where c: "e = CHR '',''" and
        "parseMembers n d (skipSpace t) = Some (ws, rest)"
      by (auto split: if_splits)
    with "7.IH"(2) [OF k _ v _ e _ False c] have "length rest < length (skipSpace t)" by auto
    with skipSpace_length [of t] len show ?thesis by simp
  qed
qed simp_all

text \<open>Any two amounts of fuel above twice the length of the text give the same result.\<close>

lemma parse_stable:
  "2 * length s + 1 \<le> n \<Longrightarrow> 2 * length s + 1 \<le> m \<Longrightarrow> parseValue n d s = parseValue m d s"
  "2 * length s + 2 \<le> n \<Longrightarrow> 2 * length s + 2 \<le> m \<Longrightarrow> parseElems n d s = parseElems m d s"
  "2 * length s + 2 \<le> n \<Longrightarrow> 2 * length s + 2 \<le> m \<Longrightarrow> parseMembers n d s = parseMembers m d s"
proof (induction n d s and n d s and n d s arbitrary: m and m and m
    rule: parseValue_parseElems_parseMembers.induct)
  case (2 n d)
  then show ?case by (cases m) auto
next
  case (3 n d c t)
  from "3.prems" obtain k where m: "m = Suc k" and n: "2 * length t + 2 \<le> n" and k: "2 * length t + 2 \<le> k"
    by (cases m) auto
  have elems: "parseElems n (d - 1) (e # t') = parseElems k (d - 1) (e # t')"
    if "c = CHR ''[''" "d \<noteq> 0" "nextChar t = Some (e, t')" "e \<noteq> CHR '']''" for e t'
    using that "3.IH"(1) [of "(e, t')" e t' k] nextChar_length [OF that(3)] n k by simp
  have members: "parseMembers n (d - 1) (e # t') = parseMembers k (d - 1) (e # t')"
    if "c = CHR ''{''" "d \<noteq> 0" "nextChar t = Some (e, t')" "e \<noteq> CHR ''}''" for e t'
    using that "3.IH"(2) [of "(e, t')" e t' k] nextChar_length [OF that(3)] n k by simp
  show ?case
  proof (cases "nextChar t")
    case None
    then show ?thesis by (simp add: m)
  next
    case (Some p)
    then obtain e t' where "nextChar t = Some (e, t')" by (cases p) auto
    with elems [of e t'] members [of e t'] show ?thesis by (simp add: m)
  qed
next
  case (5 n d s)
  from "5.prems" obtain k where m: "m = Suc k" and n: "2 * length s + 1 \<le> n" and k: "2 * length s + 1 \<le> k"
    by (cases m) auto
  have v: "parseValue n d s = parseValue k d s" by (rule "5.IH"(1) [OF n k])
  have "parseElems n d (skipSpace t) = parseElems k d (skipSpace t)"
    if "parseValue n d s = Some (x, rest)" "nextChar rest = Some (e, t)" "e \<noteq> CHR '']''" "e = CHR '',''"
    for x rest e t
  proof -
    have "length (skipSpace t) < length s"
      using parse_length(1) [OF that(1)] nextChar_length [OF that(2)] skipSpace_length [of t] by simp
    with n k have "2 * length (skipSpace t) + 2 \<le> n" "2 * length (skipSpace t) + 2 \<le> k" by simp_all
    then show ?thesis by (rule "5.IH"(2) [OF that(1) refl that(2) refl that(3,4)])
  qed
  then show ?case by (auto simp: m v [symmetric] split: option.split)
next
  case (7 n d s)
  from "7.prems" obtain k where m: "m = Suc k" and n: "2 * length s + 1 \<le> n" and k: "2 * length s + 1 \<le> k"
    by (cases m) auto
  have v: "parseValue n d r = parseValue k d r" if "parseKey s = Some (x, r)" for x r
    by (rule "7.IH"(1) [OF that refl]) (use parseKey_length [OF that] n k in simp_all)
  have ms: "parseMembers n d (skipSpace t) = parseMembers k d (skipSpace t)"
    if "parseKey s = Some (x, r)" "parseValue n d r = Some (y, rest)" "nextChar rest = Some (e, t)"
      "e \<noteq> CHR ''}''" "e = CHR '',''" for x r y rest e t
  proof -
    have "length (skipSpace t) < length s"
      using parseKey_length [OF that(1)] parse_length(1) [OF that(2)] nextChar_length [OF that(3)]
        skipSpace_length [of t] by simp
    with n k have "2 * length (skipSpace t) + 2 \<le> n" "2 * length (skipSpace t) + 2 \<le> k" by simp_all
    then show ?thesis by (rule "7.IH"(2) [OF that(1) refl that(2) refl that(3) refl that(4,5)])
  qed
  show ?case
  proof (cases "parseKey s")
    case None
    then show ?thesis by (simp add: m)
  next
    case (Some p)
    then obtain x r where key: "parseKey s = Some (x, r)" by (cases p) auto
    show ?thesis using ms [OF key] by (auto simp: m key v [OF key, symmetric] split: option.split)
  qed
qed simp_all

text \<open>The fuel \<open>parse\<close> starts with is enough: any larger amount gives the same result.\<close>

lemma parse_fuel:
  assumes "2 * length s + 1 \<le> n"
  shows "parse s = (case parseValue n maxNestingDepth (skipSpace s) of
      None \<Rightarrow> None
    | Some (v, rest) \<Rightarrow> if skipSpace rest = [] then Some v else None)"
proof -
  have "parseValue (2 * length s + 1) maxNestingDepth (skipSpace s)
      = parseValue n maxNestingDepth (skipSpace s)"
    using assms skipSpace_length [of s] by (intro parse_stable(1)) auto
  then show ?thesis by (simp add: parse_def)
qed

end
