(* ===== verification/Request.thy ===== *)
theory Request
  imports Go_Json_Lemmas Matcher "HOL-Library.AList"
begin

text \<open>
  The request body (internal/handler/handler.go, the types dataRequestV1, Input and
  InputExtraAttributes) as json.Unmarshal fills it.

  The rules of encoding/json that matter here: an object's members are taken in order, so a
  repeated member goes over what an earlier one left; a member belongs to a field when the names
  agree up to the case folding of the package; unknown members are skipped; null leaves a string,
  a bool or a struct as it is and clears a slice or a map; a value of another kind is an error,
  reported at the end, for which the handler does not look at what was decoded: \<open>None\<close>.
\<close>

section \<open>Field names\<close>

text \<open>
  Folding as far as it can make a name equal to an ASCII one: the letters, the long s (C5 BF) and
  the Kelvin sign (E2 84 AA).
\<close>

definition upperByte :: "char \<Rightarrow> char" where
  "upperByte c = (if inRange 0x61 0x7A c then char_of (byteVal c - 0x20) else c)"

fun foldName :: "string \<Rightarrow> string" where
  "foldName [] = []"
| "foldName (c # t) =
     (if c = CHR 0xC5 \<and> take 1 t = [CHR 0xBF] then CHR ''S'' # foldName (drop 1 t)
      else if c = CHR 0xE2 \<and> take 2 t = [CHR 0x84, CHR 0xAA] then CHR ''K'' # foldName (drop 2 t)
      else upperByte c # foldName t)"

definition isField :: "string \<Rightarrow> string \<Rightarrow> bool" where
  "isField name key \<longleftrightarrow> key = name \<or> foldName key = foldName name"

section \<open>Slices\<close>

text \<open>
  A slice of strings as the decoder sees it: the elements of its array and its length. Decoding an
  array into a slice writes over the elements there are, and a null element keeps what its place
  holds, be it beyond the length; an empty array makes a new slice.
\<close>

type_synonym go_slice = "string list \<times> nat"

definition nilSlice :: go_slice where "nilSlice = ([], 0)"

definition elems :: "go_slice \<Rightarrow> string list" where
  "elems s = take (snd s) (fst s)"

fun decodeElems :: "string list \<Rightarrow> nat \<Rightarrow> json list \<Rightarrow> string list option" where
  "decodeElems arr i [] = Some arr"
| "decodeElems arr i (v # vs) =
     (let arr' = (if i < length arr then arr else arr @ [[]])
      in (case v of
            JStr s \<Rightarrow> decodeElems (arr'[i := s]) (Suc i) vs
          | JNull \<Rightarrow> decodeElems arr' (Suc i) vs
          | _ \<Rightarrow> None))"

definition decodeStrings :: "go_slice \<Rightarrow> json \<Rightarrow> go_slice option" where
  "decodeStrings s v =
     (case v of
        JNull \<Rightarrow> Some nilSlice
      | JArr [] \<Rightarrow> Some nilSlice
      | JArr vs \<Rightarrow> map_option (\<lambda>arr. (arr, length vs)) (decodeElems (fst s) 0 vs)
      | _ \<Rightarrow> None)"

definition decodeString :: "string \<Rightarrow> json \<Rightarrow> string option" where
  "decodeString old v = (case v of JStr s \<Rightarrow> Some s | JNull \<Rightarrow> Some old | _ \<Rightarrow> None)"

definition decodeBool :: "bool \<Rightarrow> json \<Rightarrow> bool option" where
  "decodeBool old v = (case v of JBool b \<Rightarrow> Some b | JNull \<Rightarrow> Some old | _ \<Rightarrow> None)"

text \<open>A map keeps its entries; the value of a member is decoded into a new slice.\<close>

fun decodeEntries :: "selectors \<Rightarrow> (string \<times> json) list \<Rightarrow> selectors option" where
  "decodeEntries m [] = Some m"
| "decodeEntries m ((k, v) # ms) =
     (case decodeStrings nilSlice v of
        None \<Rightarrow> None
      | Some s \<Rightarrow> decodeEntries (AList.update k (elems s) m) ms)"

definition decodeMap :: "selectors \<Rightarrow> json \<Rightarrow> selectors option" where
  "decodeMap old v =
     (case v of JNull \<Rightarrow> Some [] | JObj ms \<Rightarrow> decodeEntries old ms | _ \<Rightarrow> None)"

section \<open>The structs\<close>

record InputExtraAttributes =
  Selectors :: selectors
  WildcardSelectors :: bool
  MetadataOnly :: bool

record Input =
  Groups :: go_slice
  Permission :: string
  Resource :: string
  Subject :: string
  Tenant :: string
  Extras :: InputExtraAttributes

record dataRequestV1 =
  req_Input :: Input

fun decodeExtras :: "InputExtraAttributes \<Rightarrow> (string \<times> json) list \<Rightarrow> InputExtraAttributes option" where
  "decodeExtras e [] = Some e"
| "decodeExtras e ((k, v) # ms) =
     (if isField ''selectors'' k then
        (case decodeMap (Selectors e) v of
           None \<Rightarrow> None | Some x \<Rightarrow> decodeExtras (e\<lparr>Selectors := x\<rparr>) ms)
      else if isField ''wildcardSelectors'' k then
        (case decodeBool (WildcardSelectors e) v of
           None \<Rightarrow> None | Some x \<Rightarrow> decodeExtras (e\<lparr>WildcardSelectors := x\<rparr>) ms)
      else if isField ''metadataOnly'' k then
        (case decodeBool (MetadataOnly e) v of
           None \<Rightarrow> None | Some x \<Rightarrow> decodeExtras (e\<lparr>MetadataOnly := x\<rparr>) ms)
      else decodeExtras e ms)"

text \<open>A struct is filled from an object and left alone by null.\<close>

definition decodeStruct :: "('a \<Rightarrow> (string \<times> json) list \<Rightarrow> 'a option) \<Rightarrow> 'a \<Rightarrow> json \<Rightarrow> 'a option" where
  "decodeStruct f old v = (case v of JNull \<Rightarrow> Some old | JObj ms \<Rightarrow> f old ms | _ \<Rightarrow> None)"

fun decodeInput :: "Input \<Rightarrow> (string \<times> json) list \<Rightarrow> Input option" where
  "decodeInput i [] = Some i"
| "decodeInput i ((k, v) # ms) =
     (if isField ''groups'' k then
        (case decodeStrings (Groups i) v of
           None \<Rightarrow> None | Some x \<Rightarrow> decodeInput (i\<lparr>Groups := x\<rparr>) ms)
      else if isField ''permission'' k then
        (case decodeString (Permission i) v of
           None \<Rightarrow> None | Some x \<Rightarrow> decodeInput (i\<lparr>Permission := x\<rparr>) ms)
      else if isField ''resource'' k then
        (case decodeString (Resource i) v of
           None \<Rightarrow> None | Some x \<Rightarrow> decodeInput (i\<lparr>Resource := x\<rparr>) ms)
      else if isField ''subject'' k then
        (case decodeString (Subject i) v of
           None \<Rightarrow> None | Some x \<Rightarrow> decodeInput (i\<lparr>Subject := x\<rparr>) ms)
      else if isField ''tenant'' k then
        (case decodeString (Tenant i) v of
           None \<Rightarrow> None | Some x \<Rightarrow> decodeInput (i\<lparr>Tenant := x\<rparr>) ms)
      else if isField ''extras'' k then
        (case decodeStruct decodeExtras (Extras i) v of
           None \<Rightarrow> None | Some x \<Rightarrow> decodeInput (i\<lparr>Extras := x\<rparr>) ms)
      else decodeInput i ms)"

fun decodeRequest :: "dataRequestV1 \<Rightarrow> (string \<times> json) list \<Rightarrow> dataRequestV1 option" where
  "decodeRequest r [] = Some r"
| "decodeRequest r ((k, v) # ms) =
     (if isField ''input'' k then
        (case decodeStruct decodeInput (req_Input r) v of
           None \<Rightarrow> None | Some x \<Rightarrow> decodeRequest (r\<lparr>req_Input := x\<rparr>) ms)
      else decodeRequest r ms)"

text \<open>The zero values of var req dataRequestV1.\<close>

definition zeroRequest :: dataRequestV1 where
  "zeroRequest = \<lparr>req_Input = \<lparr>Groups = nilSlice, Permission = [], Resource = [], Subject = [],
     Tenant = [], Extras = \<lparr>Selectors = [], WildcardSelectors = False, MetadataOnly = False\<rparr>\<rparr>\<rparr>"

definition unmarshalRequest :: "string \<Rightarrow> dataRequestV1 option" where
  "unmarshalRequest body =
     (case parse body of
        None \<Rightarrow> None
      | Some v \<Rightarrow> decodeStruct decodeRequest zeroRequest v)"

section \<open>Lemmas\<close>

lemma decodeElems_strings:
  "length arr = i \<Longrightarrow> decodeElems arr i (map JStr ss) = Some (arr @ ss)"
proof (induction ss arbitrary: arr i)
  case (Cons s ss)
  from Cons.IH [of "arr @ [s]" "Suc i"] Cons.prems show ?case
    by (auto simp: Let_def)
qed simp

lemma decodeStrings_strings:
  "\<exists>s'. decodeStrings nilSlice (JArr (map JStr ss)) = Some s' \<and> elems s' = ss"
proof (cases ss)
  case (Cons x xs)
  have "decodeElems [] 0 (map JStr ss) = Some ss" by (simp add: decodeElems_strings)
  then show ?thesis
    using Cons by (simp add: decodeStrings_def nilSlice_def elems_def del: decodeElems.simps)
qed (simp add: decodeStrings_def nilSlice_def elems_def)

lemma decodeEntries_strings:
  "decodeEntries m (map (\<lambda>(k, vs). (k, JArr (map JStr vs))) sels) =
   Some (foldl (\<lambda>m (k, vs). AList.update k vs m) m sels)"
proof (induction sels arbitrary: m)
  case (Cons p sels)
  obtain k vs where p: "p = (k, vs)" by fastforce
  obtain s' where "decodeStrings nilSlice (JArr (map JStr vs)) = Some s'" "elems s' = vs"
    using decodeStrings_strings by blast
  with Cons.IH p show ?case by simp
qed simp

lemma updates_distinct:
  "distinct (map fst (m @ sels)) \<Longrightarrow> foldl (\<lambda>m (k, vs). AList.update k vs m) m sels = m @ sels"
proof (induction sels arbitrary: m)
  case (Cons p sels)
  obtain k vs where p: "p = (k, vs)" by fastforce
  from Cons.prems p have "k \<notin> set (map fst m)" by auto
  then have "AList.update k vs m = m @ [(k, vs)]" by (induction m) auto
  with Cons.IH [of "m @ [(k, vs)]"] Cons.prems p show ?case by simp
qed simp

section \<open>A request as JSON text\<close>

text \<open>The body a client sends for a request, with every member present.\<close>

definition extrasJson :: "selectors \<Rightarrow> bool \<Rightarrow> bool \<Rightarrow> json" where
  "extrasJson sels wildcard metadata = JObj
     [(''selectors'', JObj (map (\<lambda>(k, vs). (k, JArr (map JStr vs))) sels)),
      (''wildcardSelectors'', JBool wildcard), (''metadataOnly'', JBool metadata)]"

definition requestJson ::
  "string list \<Rightarrow> string \<Rightarrow> string \<Rightarrow> string \<Rightarrow> string \<Rightarrow> selectors \<Rightarrow> bool \<Rightarrow> bool \<Rightarrow> json" where
  "requestJson groups permission resource subject tenant sels wildcard metadata = JObj
     [(''input'', JObj
        [(''groups'', JArr (map JStr groups)), (''permission'', JStr permission),
         (''resource'', JStr resource), (''subject'', JStr subject), (''tenant'', JStr tenant),
         (''extras'', extrasJson sels wildcard metadata)])]"

lemma isField_names:
  "isField ''selectors'' ''selectors''" "\<not> isField ''selectors'' ''wildcardSelectors''"
  "\<not> isField ''selectors'' ''metadataOnly''" "isField ''wildcardSelectors'' ''wildcardSelectors''"
  "\<not> isField ''wildcardSelectors'' ''metadataOnly''" "isField ''metadataOnly'' ''metadataOnly''"
  "isField ''groups'' ''groups''" "\<not> isField ''groups'' ''permission''" "\<not> isField ''groups'' ''resource''"
  "\<not> isField ''groups'' ''subject''" "\<not> isField ''groups'' ''tenant''" "\<not> isField ''groups'' ''extras''"
  "isField ''permission'' ''permission''" "\<not> isField ''permission'' ''resource''"
  "\<not> isField ''permission'' ''subject''" "\<not> isField ''permission'' ''tenant''" "\<not> isField ''permission'' ''extras''"
  "isField ''resource'' ''resource''" "\<not> isField ''resource'' ''subject''" "\<not> isField ''resource'' ''tenant''"
  "\<not> isField ''resource'' ''extras''" "isField ''subject'' ''subject''" "\<not> isField ''subject'' ''tenant''"
  "\<not> isField ''subject'' ''extras''" "isField ''tenant'' ''tenant''" "\<not> isField ''tenant'' ''extras''"
  "isField ''extras'' ''extras''" "isField ''input'' ''input''"
  by (simp_all add: isField_def upperByte_def inRange_def)

lemma plainJson_strings: "0 < d \<Longrightarrow> \<forall>s \<in> set ss. validUtf8 s \<Longrightarrow> plainJson d (JArr (map JStr ss))"
  by auto

lemma plainJson_selectors:
  "2 \<le> d \<Longrightarrow> \<forall>p \<in> set sels. validUtf8 (fst p) \<and> (\<forall>v \<in> set (snd p). validUtf8 v) \<Longrightarrow>
   plainJson d (JObj (map (\<lambda>(k, vs). (k, JArr (map JStr vs))) sels))"
  by (auto simp del: plainJson.simps(5) intro!: plainJson_strings)

lemma validUtf8_names:
  "list_all validUtf8 [''input'', ''groups'', ''permission'', ''resource'', ''subject'', ''tenant'',
     ''extras'', ''selectors'', ''wildcardSelectors'', ''metadataOnly'']"
  by (simp add: utf8Size_ascii)

lemma plainJson_requestJson:
  assumes "\<forall>s \<in> set ([permission, resource, subject, tenant] @ groups). validUtf8 s"
    and "\<forall>p \<in> set sels. validUtf8 (fst p) \<and> (\<forall>v \<in> set (snd p). validUtf8 v)"
  shows "plainJson maxNestingDepth (requestJson groups permission resource subject tenant sels w md)"
proof -
  have "plainJson (maxNestingDepth - 3) (JObj (map (\<lambda>(k, vs). (k, JArr (map JStr vs))) sels))"
    using assms(2) by (intro plainJson_selectors) (simp_all add: maxNestingDepth_def)
  then have "plainJson (maxNestingDepth - 2) (extrasJson sels w md)"
    using validUtf8_names by (simp add: extrasJson_def maxNestingDepth_def)
  moreover have "plainJson (maxNestingDepth - 2) (JArr (map JStr groups))"
    using assms(1) by (intro plainJson_strings) (simp_all add: maxNestingDepth_def)
  ultimately show ?thesis
    using assms(1) validUtf8_names by (simp add: requestJson_def maxNestingDepth_def)
qed

lemma unmarshalRequest_requestJson:
  assumes "\<forall>s \<in> set ([permission, resource, subject, tenant] @ groups). validUtf8 s"
    and "\<forall>p \<in> set sels. validUtf8 (fst p) \<and> (\<forall>v \<in> set (snd p). validUtf8 v)"
    and "distinct (map fst sels)"
  shows "\<exists>g. unmarshalRequest (render (requestJson groups permission resource subject tenant sels w md))
      = Some \<lparr>req_Input = \<lparr>Groups = g, Permission = permission, Resource = resource,
          Subject = subject, Tenant = tenant,
          Extras = \<lparr>Selectors = sels, WildcardSelectors = w, MetadataOnly = md\<rparr>\<rparr>\<rparr>
    \<and> elems g = groups"
proof -
  obtain g where g: "decodeStrings nilSlice (JArr (map JStr groups)) = Some g" "elems g = groups"
    using decodeStrings_strings by blast
  have extras: "decodeStruct decodeExtras \<lparr>Selectors = [], WildcardSelectors = False, MetadataOnly = False\<rparr>
      (extrasJson sels w md) = Some \<lparr>Selectors = sels, WildcardSelectors = w, MetadataOnly = md\<rparr>"
    using assms(3) by (simp add: decodeStruct_def extrasJson_def decodeMap_def decodeEntries_strings
        updates_distinct decodeBool_def isField_names)
  have "parse (render (requestJson groups permission resource subject tenant sels w md))
      = Some (requestJson groups permission resource subject tenant sels w md)"
    using assms(1,2) by (intro parse_render plainJson_requestJson)
  then have "unmarshalRequest (render (requestJson groups permission resource subject tenant sels w md))
      = decodeStruct decodeRequest zeroRequest (requestJson groups permission resource subject tenant sels w md)"
    by (simp add: unmarshalRequest_def del: render.simps)
  also have "\<dots> = Some \<lparr>req_Input = \<lparr>Groups = g, Permission = permission, Resource = resource,
          Subject = subject, Tenant = tenant,
          Extras = \<lparr>Selectors = sels, WildcardSelectors = w, MetadataOnly = md\<rparr>\<rparr>\<rparr>"
    using g(1) extras by (simp add: requestJson_def decodeStruct_def zeroRequest_def decodeString_def isField_names)
  finally show ?thesis using g(2) by blast
qed

section \<open>Properties\<close>

text \<open>
  C15: a request is read as it was written. The body a client renders for a request with
  well-formed UTF-8 strings and one entry per selector label decodes without an error to exactly
  its groups, permission, resource, subject, tenant, selectors and flags.
\<close>

theorem unmarshalRequest_render:
  assumes "\<forall>s \<in> set ([permission, resource, subject, tenant] @ groups). validUtf8 s"
    and "\<forall>p \<in> set sels. validUtf8 (fst p) \<and> (\<forall>v \<in> set (snd p). validUtf8 v)"
    and "distinct (map fst sels)"
  shows "\<exists>g. unmarshalRequest (render (requestJson groups permission resource subject tenant sels w md))
      = Some \<lparr>req_Input = \<lparr>Groups = g, Permission = permission, Resource = resource,
          Subject = subject, Tenant = tenant,
          Extras = \<lparr>Selectors = sels, WildcardSelectors = w, MetadataOnly = md\<rparr>\<rparr>\<rparr>
    \<and> elems g = groups"
  using unmarshalRequest_requestJson [OF assms] .

theorem unmarshalRequest_render_witness:
  "\<exists>g. unmarshalRequest (render (requestJson [''dev''] ''read'' ''logs'' ''joe'' ''application''
        [(k8s_namespace_name, [''ns-1''])] False True))
      = Some \<lparr>req_Input = \<lparr>Groups = g, Permission = ''read'', Resource = ''logs'', Subject = ''joe'',
          Tenant = ''application'', Extras = \<lparr>Selectors = [(k8s_namespace_name, [''ns-1''])],
            WildcardSelectors = False, MetadataOnly = True\<rparr>\<rparr>\<rparr>
    \<and> elems g = [''dev'']"
  by (rule unmarshalRequest_render) (simp_all add: utf8Size_ascii)

end
