(* ===== verification/Response.thy ===== *)
theory Response
  imports Matcher Go_Json_Lemmas
begin

text \<open>
  The answers of the authorizer (internal/authorizer/authorizer.go): the OPA response with a
  boolean, and the one with a label matcher as JSON text inside the JSON.

  types.DataResponseV1 is OPA's struct; the program only uses its field Result, a pointer to an
  interface value, which is either a bool or a map[string]string. It is a \<open>json option\<close> here.
  labels.NewMatcher (Prometheus) is a parameter \<open>nm\<close>, since it compiles the value as a regular
  expression and may fail; the documented behaviour the code relies on is \<open>newMatcherContract\<close>.
\<close>

record DataResponseV1 =
  Result :: "json option"

definition emptyResponse :: DataResponseV1 where
  "emptyResponse = \<lparr>Result = None\<rparr>"

text \<open>The exported fields of labels.Matcher, which are what json.Marshal writes of it.\<close>

record labelMatcher =
  mType :: nat
  mName :: string
  mValue :: string

definition MatchRegexp :: nat where
  "MatchRegexp = 2"

type_synonym newMatcher = "nat \<Rightarrow> string \<Rightarrow> string \<Rightarrow> go_error + labelMatcher"

definition newMatcherContract :: "newMatcher \<Rightarrow> bool" where
  "newMatcherContract nm \<longleftrightarrow>
     (\<forall>t n v lm. nm t n v = Inr lm \<longrightarrow> lm = \<lparr>mType = t, mName = n, mValue = v\<rparr>)"

section \<open>JSON of the answers\<close>

fun decimal :: "nat \<Rightarrow> string" where
  "decimal n = (if n < 10 then [char_of (48 + n)] else decimal (n div 10) @ [char_of (48 + n mod 10)])"

declare decimal.simps [simp del]

definition labelMatcherJson :: "labelMatcher \<Rightarrow> json" where
  "labelMatcherJson m = JObj [(''Type'', JNum (decimal (mType m))), (''Name'', JStr (mName m)),
     (''Value'', JStr (mValue m))]"

text \<open>AuthzResponseData: both fields are omitted when empty.\<close>

record AuthzResponseData =
  Matchers :: "labelMatcher list"
  arMatcherOp :: string

definition authzResponseDataJson :: "AuthzResponseData \<Rightarrow> json" where
  "authzResponseDataJson a = JObj
     ((if Matchers a = [] then [] else [(''matchers'', JArr (map labelMatcherJson (Matchers a)))]) @
      (if arMatcherOp a = [] then [] else [(''matcherOp'', JStr (arMatcherOp a))]))"

text \<open>json.Marshal of the values the program marshals never fails; the error branch stays in the model.\<close>

definition Marshal :: "json \<Rightarrow> go_error + string" where
  "Marshal v = Inr (render v)"

section \<open>Building responses\<close>

definition minimalDataResponseV1 :: "bool \<Rightarrow> DataResponseV1" where
  "minimalDataResponseV1 allowed = \<lparr>Result = Some (JBool allowed)\<rparr>"

text \<open>The loop over the matcher's keys.\<close>

fun newMatchers ::
  "newMatcher \<Rightarrow> string \<Rightarrow> string list \<Rightarrow> labelMatcher list \<Rightarrow> go_error + labelMatcher list" where
  "newMatchers nm val [] ms = Inr ms"
| "newMatchers nm val (key # keys) ms =
     (case nm MatchRegexp key val of
        Inl err \<Rightarrow> Inl (wrapf ''failed to create new matcher'' err)
      | Inr lm \<Rightarrow> newMatchers nm val keys (ms @ [lm]))"

definition newDataResponseV1 ::
  "newMatcher \<Rightarrow> string list \<Rightarrow> Matcher \<Rightarrow> go_error + DataResponseV1" where
  "newDataResponseV1 nm ns matcher =
     (if IsEmpty matcher \<and> 0 < length ns then Inr (minimalDataResponseV1 True)
      else (case newMatchers nm (join ''|'' ns) (Keys matcher) [] of
          Inl err \<Rightarrow> Inl err
        | Inr ms \<Rightarrow>
            (case Marshal (authzResponseDataJson \<lparr>Matchers = ms, arMatcherOp = MatcherOp matcher\<rparr>) of
               Inl err \<Rightarrow> Inl (wrapf ''failed to marshal matcher to json'' err)
             | Inr data \<Rightarrow>
                 let allowed = (if length ns = 0 then ''false'' else ''true'')
                 in Inr \<lparr>Result = Some (JObj [(''allowed'', JStr allowed), (''data'', JStr data)])\<rparr>)))"

section \<open>What a response means\<close>

text \<open>
  The abstract decision behind a response: deny, allow everything, or allow what matches one of
  the keys against the listed namespaces (with no namespace listed, that is a denial too).
\<close>

datatype decision =
    Deny
  | AllowAll
  | Restrict "string list" string "string list"

definition restrictJson :: "string list \<Rightarrow> string \<Rightarrow> string list \<Rightarrow> json" where
  "restrictJson keys op ns = authzResponseDataJson
     \<lparr>Matchers = map (\<lambda>k. \<lparr>mType = MatchRegexp, mName = k, mValue = join ''|'' ns\<rparr>) keys,
      arMatcherOp = op\<rparr>"

fun encodeDecision :: "decision \<Rightarrow> DataResponseV1" where
  "encodeDecision Deny = minimalDataResponseV1 False"
| "encodeDecision AllowAll = minimalDataResponseV1 True"
| "encodeDecision (Restrict keys op ns) =
     \<lparr>Result = Some (JObj [(''allowed'', JStr (if ns = [] then ''false'' else ''true'')),
        (''data'', JStr (render (restrictJson keys op ns)))])\<rparr>"

section \<open>Lemmas\<close>

lemma newMatchers_eq:
  assumes "newMatcherContract nm"
  shows "newMatchers nm val keys ms = Inr r \<Longrightarrow>
    r = ms @ map (\<lambda>k. \<lparr>mType = MatchRegexp, mName = k, mValue = val\<rparr>) keys"
  using assms by (induction nm val keys ms rule: newMatchers.induct)
    (auto simp: newMatcherContract_def split: sum.splits)

lemma newMatchers_error:
  "newMatchers nm val keys ms = Inl e \<Longrightarrow> StatusCode e = None"
  by (induction nm val keys ms rule: newMatchers.induct) (auto split: sum.splits)

lemma newDataResponseV1_decision:
  assumes "newMatcherContract nm" "newDataResponseV1 nm ns m = Inr r"
  shows "r = encodeDecision (if Keys m = [] \<and> ns \<noteq> [] then AllowAll
                             else Restrict (Keys m) (MatcherOp m) ns)"
  using assms
  by (auto simp: newDataResponseV1_def IsEmpty_iff Marshal_def restrictJson_def Let_def
      split: sum.splits if_splits dest: newMatchers_eq)

lemma newDataResponseV1_error:
  "newDataResponseV1 nm ns m = Inl e \<Longrightarrow> StatusCode e = None"
  by (auto simp: newDataResponseV1_def Marshal_def Let_def split: sum.splits if_splits
      dest: newMatchers_error)

text \<open>The program only accepts values that labels.NewMatcher compiles; then building never fails.\<close>

lemma newMatchers_total:
  "(\<And>k. k \<in> set keys \<Longrightarrow> \<exists>lm. nm MatchRegexp k val = Inr lm) \<Longrightarrow> \<exists>r. newMatchers nm val keys ms = Inr r"
proof (induction keys arbitrary: ms)
  case (Cons k keys)
  then obtain lm where "nm MatchRegexp k val = Inr lm" by auto
  with Cons show ?case by simp
qed simp

lemma newDataResponseV1_total:
  assumes "\<And>k. k \<in> set (Keys m) \<Longrightarrow> \<exists>lm. nm MatchRegexp k (join ''|'' ns) = Inr lm"
  shows "\<exists>r. newDataResponseV1 nm ns m = Inr r"
proof -
  from newMatchers_total [of "Keys m" nm, OF assms] obtain ms where
    "newMatchers nm (join ''|'' ns) (Keys m) [] = Inr ms" by blast
  then show ?thesis by (simp add: newDataResponseV1_def Marshal_def Let_def)
qed

section \<open>Reading a response back\<close>

lemma natText_decimal: "natText (decimal n)"
proof (induction n rule: decimal.induct)
  case (1 n)
  show ?case
  proof (cases "n < 10")
    case True
    then have "isDigit (char_of (48 + n))" by (simp add: isDigit_def inRange_def)
    with True show ?thesis
      by (subst decimal.simps) (auto simp: natText_def)
  next
    case False
    with 1 have ih: "natText (decimal (n div 10))" by simp
    have digit: "isDigit (char_of (48 + n mod 10))" by (simp add: isDigit_def inRange_def)
    have "decimal (n div 10) \<noteq> ''0''"
    proof (cases "n div 10 < 10")
      case True
      have k: "(48 + n div 10) mod 256 = 48 + n div 10" "0 < n div 10" using True False by auto
      have "char_of (48 + n div 10) \<noteq> CHR ''0''"
      proof
        assume "char_of (48 + n div 10) = CHR ''0''"
        then have "of_char (char_of (48 + n div 10) :: char) = (of_char CHR ''0'' :: nat)" by simp
        then have "(48 + n div 10) mod 256 = 48" by simp
        with k show False by simp
      qed
      then show ?thesis using True by (simp add: decimal.simps [of "n div 10"])
    next
      case False
      then show ?thesis by (simp add: decimal.simps [of "n div 10"] decimal.simps [of "n div 10 div 10"])
    qed
    with ih digit False show ?thesis
      by (subst decimal.simps) (cases "decimal (n div 10)"; auto simp: natText_def)
  qed
qed

lemma plainJson_labelMatchers:
  assumes "\<forall>k \<in> set keys. validUtf8 k" "validUtf8 v" "2 \<le> d"
  shows "plainJson d (JArr (map labelMatcherJson (map (\<lambda>k. \<lparr>mType = t, mName = k, mValue = v\<rparr>) keys)))"
  using assms by (auto simp: labelMatcherJson_def natText_decimal utf8Size_ascii)

lemma plainJson_restrictJson:
  assumes "\<forall>k \<in> set keys. validUtf8 k" "\<forall>n \<in> set ns. validUtf8 n" "validUtf8 op"
  shows "plainJson maxNestingDepth (restrictJson keys op ns)"
proof -
  have "validUtf8 (join ''|'' ns)"
    using assms(2) by (auto intro!: validUtf8_join simp: utf8Size_ascii)
  with assms plainJson_labelMatchers [of keys "join ''|'' ns" "maxNestingDepth - 1" MatchRegexp]
  show ?thesis
    by (simp add: restrictJson_def authzResponseDataJson_def maxNestingDepth_def utf8Size_ascii)
qed

text \<open>
  The reader of a response: a boolean decides alone; an object is decided by \<open>allowed\<close>, and its
  \<open>data\<close> is JSON text holding one regular-expression matcher per key, all with the same
  alternatives.
\<close>

fun readMatcher :: "json \<Rightarrow> (string \<times> string) option" where
  "readMatcher (JObj [(t, JNum n), (k, JStr key), (v, JStr val)]) =
     (if t = ''Type'' \<and> n = decimal MatchRegexp \<and> k = ''Name'' \<and> v = ''Value''
      then Some (key, val) else None)"
| "readMatcher _ = None"

fun readMatchers :: "json list \<Rightarrow> (string \<times> string) list option" where
  "readMatchers [] = Some []"
| "readMatchers (v # vs) =
     (case (readMatcher v, readMatchers vs) of (Some m, Some ms) \<Rightarrow> Some (m # ms) | _ \<Rightarrow> None)"

fun readMember :: "string \<Rightarrow> json \<Rightarrow> json option" where
  "readMember k (JObj ms) = map_of ms k"
| "readMember k _ = None"

definition readData :: "string \<Rightarrow> (string list \<times> string \<times> string list) option" where
  "readData s = (case parse s of
       Some v \<Rightarrow>
         (let op = (case readMember ''matcherOp'' v of Some (JStr x) \<Rightarrow> x | _ \<Rightarrow> [])
          in (case readMember ''matchers'' v of
              Some (JArr xs) \<Rightarrow>
                (case readMatchers xs of
                   Some (m # ms) \<Rightarrow>
                     Some (map fst (m # ms), op, if snd m = [] then [] else split CHR ''|'' (snd m))
                 | _ \<Rightarrow> None)
            | _ \<Rightarrow> Some ([], op, [])))
     | None \<Rightarrow> None)"

definition readResponse :: "DataResponseV1 \<Rightarrow> decision option" where
  "readResponse r = (case Result r of
       Some (JBool b) \<Rightarrow> Some (if b then AllowAll else Deny)
     | Some (JObj ms) \<Rightarrow>
         (case (map_of ms ''allowed'', map_of ms ''data'') of
            (Some (JStr a), Some (JStr d)) \<Rightarrow>
              (case readData d of
                 Some (keys, op, ns) \<Rightarrow>
                   if a = (if ns = [] then ''false'' else ''true'') then Some (Restrict keys op ns) else None
               | None \<Rightarrow> None)
          | _ \<Rightarrow> None)
     | _ \<Rightarrow> None)"

text \<open>
  The decisions a response can carry: the strings are UTF-8, no namespace is empty or holds a
  bar, and a restriction without keys lists no namespace (newDataResponseV1 answers with a plain
  \<open>true\<close> then).
\<close>

fun readable :: "decision \<Rightarrow> bool" where
  "readable (Restrict keys op ns) \<longleftrightarrow> (\<forall>k \<in> set keys. validUtf8 k) \<and> validUtf8 op \<and>
     (\<forall>n \<in> set ns. validUtf8 n \<and> n \<noteq> [] \<and> CHR ''|'' \<notin> set n) \<and> (keys = [] \<longrightarrow> ns = [])"
| "readable _ \<longleftrightarrow> True"

lemma readMatchers_map:
  "readMatchers (map labelMatcherJson (map (\<lambda>k. \<lparr>mType = MatchRegexp, mName = k, mValue = v\<rparr>) keys)) =
   Some (map (\<lambda>k. (k, v)) keys)"
  by (induction keys) (auto simp: labelMatcherJson_def)

lemma readData_restrictJson:
  assumes "readable (Restrict keys op ns)"
  shows "readData (render (restrictJson keys op ns)) = Some (keys, op, ns)"
proof -
  have p: "parse (render (restrictJson keys op ns)) = Some (restrictJson keys op ns)"
    using assms by (intro parse_render plainJson_restrictJson) auto
  have ns: "(if join ''|'' ns = [] then [] else split CHR ''|'' (join ''|'' ns)) = ns"
    using assms join_eq_Nil [of ns "''|''"] by (auto intro!: split_join)
  show ?thesis
  proof (cases keys)
    case Nil
    have m: "readMember ''matchers'' (restrictJson [] op []) = None"
      "(case readMember ''matcherOp'' (restrictJson [] op []) of Some (JStr x) \<Rightarrow> x | _ \<Rightarrow> []) = op"
      by (simp_all add: restrictJson_def authzResponseDataJson_def)
    from Nil assms have "ns = []" by simp
    with Nil p m show ?thesis by (simp only: readData_def option.case Let_def)
  next
    case (Cons k ks)
    have m: "readMember ''matchers'' (restrictJson keys op ns) = Some (JArr (map labelMatcherJson
        (map (\<lambda>k. \<lparr>mType = MatchRegexp, mName = k, mValue = join ''|'' ns\<rparr>) keys)))"
      using Cons by (simp add: restrictJson_def authzResponseDataJson_def)
    have o: "(case readMember ''matcherOp'' (restrictJson keys op ns) of Some (JStr x) \<Rightarrow> x | _ \<Rightarrow> []) = op"
      by (simp add: restrictJson_def authzResponseDataJson_def)
    show ?thesis
      unfolding readData_def p option.case m Let_def o json.case readMatchers_map
      using Cons ns by (auto simp: comp_def split: if_splits)
  qed
qed

text \<open>A response loses nothing of the decision it was built for.\<close>

lemma readResponse_encodeDecision:
  assumes "readable d"
  shows "readResponse (encodeDecision d) = Some d"
  using assms
  by (cases d) (simp_all add: readResponse_def minimalDataResponseV1_def readData_restrictJson)

text \<open>A NewMatcher that takes every value.\<close>

definition anyNewMatcher :: newMatcher where
  "anyNewMatcher t n v = Inr \<lparr>mType = t, mName = n, mValue = v\<rparr>"

lemma newMatcherContract_any: "newMatcherContract anyNewMatcher"
  by (simp add: newMatcherContract_def anyNewMatcher_def)

section \<open>Properties\<close>

text \<open>
  C16: a response says what it was built for. From the response newDataResponseV1 makes of a
  list of namespaces and a matcher a reader gets back the matcher's keys and operator and exactly
  these namespaces, in order: \<open>allowed\<close> is the text true or false, \<open>data\<close> is JSON text, and the
  value of each label matcher is the list joined by bars, so that splitting it at the bars
  restores the namespaces as long as none is empty or holds a bar. (The README documents a boolean,
  a JSON list and a comma-separated value.)
\<close>

theorem newDataResponseV1_readable:
  assumes "newMatcherContract nm" "newDataResponseV1 nm ns m = Inr res"
    and "\<forall>k \<in> set (MatcherOp m # Keys m). validUtf8 k"
    and "\<forall>n \<in> set ns. validUtf8 n \<and> n \<noteq> [] \<and> CHR ''|'' \<notin> set n"
  shows "readResponse res = Some (if Keys m = [] \<and> ns \<noteq> [] then AllowAll
    else Restrict (Keys m) (MatcherOp m) ns)"
proof -
  let ?d = "if Keys m = [] \<and> ns \<noteq> [] then AllowAll else Restrict (Keys m) (MatcherOp m) ns"
  have "readable ?d" using assms(3,4) by auto
  with newDataResponseV1_decision [OF assms(1,2)] show ?thesis
    using readResponse_encodeDecision by simp
qed

theorem newDataResponseV1_readable_witness:
  "\<exists>res. newDataResponseV1 anyNewMatcher [''ns-1'', ''ns-2''] exampleMatcher = Inr res
     \<and> readResponse res = Some (Restrict [kubernetes_namespace_name, k8s_namespace_name] ''or'' [''ns-1'', ''ns-2''])"
proof -
  obtain res where res: "newDataResponseV1 anyNewMatcher [''ns-1'', ''ns-2''] exampleMatcher = Inr res"
    using newDataResponseV1_total [of exampleMatcher anyNewMatcher] by (auto simp: anyNewMatcher_def)
  have op: "MatcherOp exampleMatcher = ''or''" by (simp add: exampleMatcher_def ToMatcher_def Let_def)
  have utf8: "\<forall>k \<in> set (MatcherOp exampleMatcher # Keys exampleMatcher). validUtf8 k"
    "\<forall>n \<in> set [''ns-1'', ''ns-2'']. validUtf8 n \<and> n \<noteq> [] \<and> CHR ''|'' \<notin> set n"
    by (simp_all add: op utf8Size_ascii)
  from newDataResponseV1_readable [OF newMatcherContract_any res utf8] res op show ?thesis by simp
qed

end
