(* ===== verification/Cache.thy ===== *)
theory Cache
  imports Response "HOL-Library.Word"
begin

text \<open>
  The response cache (internal/cache): the interface Cacher, its two implementations over the
  ttlcache library and over memcached, and the Prometheus collector of the in-memory one.

  Outside the repository, and so parameters here: the JSON form of OPA's struct DataResponseV1
  (\<open>respCodec\<close>), the operations of ttlcache (\<open>ttlcache\<close>) and those of telemeter's memcached
  client (\<open>mcache\<close>). What the code relies on of them is stated as \<open>codecKeeps\<close>,
  \<open>ttlContract\<close>, \<open>countsLookups\<close> and \<open>mcContract\<close>. A state \<open>'s\<close> is that of the cache server, clock included.
\<close>

section \<open>The interface\<close>

record 's Cacher =
  cacheGet :: "'s \<Rightarrow> string \<Rightarrow> (go_error + DataResponseV1 \<times> bool) \<times> 's"
  cacheSet :: "'s \<Rightarrow> string \<Rightarrow> DataResponseV1 \<Rightarrow> go_error option \<times> 's"

text \<open>json.Marshal and json.Unmarshal on types.DataResponseV1.\<close>

record respCodec =
  marshalResponse :: "DataResponseV1 \<Rightarrow> go_error + string"
  unmarshalResponse :: "string \<Rightarrow> go_error + DataResponseV1"

definition toJSON :: "respCodec \<Rightarrow> DataResponseV1 \<Rightarrow> go_error + string" where
  "toJSON cd res =
     (case marshalResponse cd res of
        Inl err \<Rightarrow> Inl (wrapf ''failed to convert DataResponseV1 to JSON'' err)
      | Inr val \<Rightarrow> Inr val)"

definition fromJSON :: "respCodec \<Rightarrow> string \<Rightarrow> go_error + DataResponseV1" where
  "fromJSON cd b =
     (case unmarshalResponse cd b of
        Inl err \<Rightarrow> Inl (wrapf ''failed to convert JSON to DataResponseV1'' err)
      | Inr res \<Rightarrow> Inr res)"

text \<open>The codec reads back what it wrote of this response.\<close>

definition codecKeeps :: "respCodec \<Rightarrow> DataResponseV1 \<Rightarrow> bool" where
  "codecKeeps cd res \<longleftrightarrow>
     (case marshalResponse cd res of
        Inl err \<Rightarrow> False
      | Inr b \<Rightarrow> unmarshalResponse cd b = Inr res)"

section \<open>The in-memory cache\<close>

record ttlOptions =
  WithTTL :: "64 word"
  WithDisableTouchOnHit :: bool

record ttlMetrics =
  Insertions :: "64 word"
  Hits :: "64 word"
  Misses :: "64 word"
  Evictions :: "64 word"

datatype ttl = DefaultTTL | TTL "64 word"

record 's ttlcache =
  tcGet :: "'s \<Rightarrow> string \<Rightarrow> string option \<times> 's"
  tcSet :: "'s \<Rightarrow> string \<Rightarrow> string \<Rightarrow> ttl \<Rightarrow> 's"
  tcMetrics :: "'s \<Rightarrow> ttlMetrics"

definition time_Second :: "64 word" where
  "time_Second = 1000000000"

definition expireDuration :: "32 word \<Rightarrow> 64 word" where
  "expireDuration expire = scast expire * time_Second"

definition inmemory_Get ::
  "respCodec \<Rightarrow> 's ttlcache \<Rightarrow> 's \<Rightarrow> string \<Rightarrow> (go_error + DataResponseV1 \<times> bool) \<times> 's" where
  "inmemory_Get cd tc s k =
     (let (item, s') = tcGet tc s k
      in (case item of
            None \<Rightarrow> (Inr (emptyResponse, False), s')
          | Some b \<Rightarrow>
              (case fromJSON cd b of
                 Inl err \<Rightarrow> (Inl err, s')
               | Inr res \<Rightarrow> (Inr (res, True), s'))))"

definition inmemory_Set ::
  "respCodec \<Rightarrow> 's ttlcache \<Rightarrow> 's \<Rightarrow> string \<Rightarrow> DataResponseV1 \<Rightarrow> go_error option \<times> 's" where
  "inmemory_Set cd tc s k res =
     (case toJSON cd res of
        Inl err \<Rightarrow> (Some err, s)
      | Inr v \<Rightarrow> (None, tcSet tc s k v DefaultTTL))"

definition inmemory :: "respCodec \<Rightarrow> 's ttlcache \<Rightarrow> 's Cacher" where
  "inmemory cd tc = \<lparr>cacheGet = inmemory_Get cd tc, cacheSet = inmemory_Set cd tc\<rparr>"

definition NewInMemoryCache ::
  "respCodec \<Rightarrow> (ttlOptions \<Rightarrow> 's ttlcache \<times> 's) \<Rightarrow> 32 word \<Rightarrow> 's Cacher \<times> 's" where
  "NewInMemoryCache cd ttlcache_New expire =
     (let (tc, s) = ttlcache_New \<lparr>WithTTL = expireDuration expire, WithDisableTouchOnHit = True\<rparr>
      in (inmemory cd tc, s))"

section \<open>The memcached cache\<close>

record 's mcache =
  mcGet :: "'s \<Rightarrow> string \<Rightarrow> (go_error + string \<times> bool) \<times> 's"
  mcSet :: "'s \<Rightarrow> string \<Rightarrow> string \<Rightarrow> go_error option \<times> 's"

definition memcache_Get ::
  "respCodec \<Rightarrow> 's mcache \<Rightarrow> 's \<Rightarrow> string \<Rightarrow> (go_error + DataResponseV1 \<times> bool) \<times> 's" where
  "memcache_Get cd mc s k =
     (let (r, s') = mcGet mc s k
      in (case r of
            Inl err \<Rightarrow> (Inl (wrapf ''failed to fetch from memcached'' err), s')
          | Inr (b, ok) \<Rightarrow>
              (if ok
               then (case fromJSON cd b of
                       Inl err \<Rightarrow> (Inl err, s')
                     | Inr res \<Rightarrow> (Inr (res, True), s'))
               else (Inr (emptyResponse, False), s'))))"

definition memcache_Set ::
  "respCodec \<Rightarrow> 's mcache \<Rightarrow> 's \<Rightarrow> string \<Rightarrow> DataResponseV1 \<Rightarrow> go_error option \<times> 's" where
  "memcache_Set cd mc s k res =
     (case toJSON cd res of
        Inl err \<Rightarrow> (Some err, s)
      | Inr v \<Rightarrow>
          (let (e, s') = mcSet mc s k v
           in (case e of
                 Some err \<Rightarrow> (Some (wrapf ''failed to store in memcached'' err), s')
               | None \<Rightarrow> (None, s'))))"

definition memcache :: "respCodec \<Rightarrow> 's mcache \<Rightarrow> 's Cacher" where
  "memcache cd mc = \<lparr>cacheGet = memcache_Get cd mc, cacheSet = memcache_Set cd mc\<rparr>"

definition NewMemached ::
  "respCodec \<Rightarrow> (32 word \<Rightarrow> 32 word \<Rightarrow> string list \<Rightarrow> 's mcache \<times> 's) \<Rightarrow>
   32 word \<Rightarrow> 32 word \<Rightarrow> string list \<Rightarrow> 's Cacher \<times> 's" where
  "NewMemached cd memcached_New interval expiration servers =
     (let (mc, s) = memcached_New interval expiration servers in (memcache cd mc, s))"

section \<open>The collector of the in-memory cache\<close>

record Desc =
  fqName :: string
  helpText :: string
  variableLabels :: "string list"

datatype valueType = CounterValue

record 'f Metric =
  desc :: Desc
  kind :: valueType
  val :: 'f
  labelValues :: "string list"

definition metricsPrefix :: string where "metricsPrefix = ''opa_openshift_cache_''"
definition metricNameCacheRequests :: string where
  "metricNameCacheRequests = metricsPrefix @ ''requests_total''"
definition metricNameCacheInserts :: string where
  "metricNameCacheInserts = metricsPrefix @ ''inserts_total''"
definition metricNameCacheEvictions :: string where
  "metricNameCacheEvictions = metricsPrefix @ ''evictions_total''"
definition metricsRequestResultHit :: string where "metricsRequestResultHit = ''hit''"
definition metricsRequestResultMiss :: string where "metricsRequestResultMiss = ''miss''"
definition metricsLabels :: "string list" where "metricsLabels = [''result'']"

definition descCacheRequests :: Desc where
  "descCacheRequests = \<lparr>fqName = metricNameCacheRequests,
     helpText = ''Counts the number of retrieval requests to the cache.'', variableLabels = metricsLabels\<rparr>"
definition descCacheInserts :: Desc where
  "descCacheInserts = \<lparr>fqName = metricNameCacheInserts,
     helpText = ''Counts the number of inserts into the cache.'', variableLabels = []\<rparr>"
definition descCacheEvictions :: Desc where
  "descCacheEvictions = \<lparr>fqName = metricNameCacheEvictions,
     helpText = ''Counts the number of cache evictions.'', variableLabels = []\<rparr>"

text \<open>What the collector sends on its two channels, in order; \<open>fl\<close> is the conversion to float64.\<close>

definition Describe :: "Desc list" where
  "Describe = [descCacheInserts, descCacheRequests, descCacheEvictions]"

definition Collect :: "(64 word \<Rightarrow> 'f) \<Rightarrow> 's ttlcache \<Rightarrow> 's \<Rightarrow> 'f Metric list" where
  "Collect fl tc s = (let metrics = tcMetrics tc s in
     [\<lparr>desc = descCacheInserts, kind = CounterValue, val = fl (Insertions metrics), labelValues = []\<rparr>,
      \<lparr>desc = descCacheRequests, kind = CounterValue, val = fl (Hits metrics),
       labelValues = [metricsRequestResultHit]\<rparr>,
      \<lparr>desc = descCacheRequests, kind = CounterValue, val = fl (Misses metrics),
       labelValues = [metricsRequestResultMiss]\<rparr>,
      \<lparr>desc = descCacheEvictions, kind = CounterValue, val = fl (Evictions metrics), labelValues = []\<rparr>])"

lemmas cache_metric_defs = descCacheRequests_def descCacheInserts_def descCacheEvictions_def
  metricNameCacheRequests_def metricNameCacheInserts_def metricNameCacheEvictions_def
  metricsPrefix_def metricsLabels_def metricsRequestResultHit_def metricsRequestResultMiss_def

section \<open>The contracts\<close>

text \<open>
  What the code relies on of the two stores, given a view of a store's state as a map: reading
  yields what the view holds, writing changes the written key only. Either may lose entries at
  any time (expiry, eviction, a lost connection), and a failed write may or may not be visible.
\<close>

definition ttlContract :: "'s ttlcache \<Rightarrow> ('s \<Rightarrow> string \<rightharpoonup> string) \<Rightarrow> bool" where
  "ttlContract tc view \<longleftrightarrow>
     (\<forall>s k. (case fst (tcGet tc s k) of None \<Rightarrow> True | Some b \<Rightarrow> view s k = Some b)
            \<and> view (snd (tcGet tc s k)) \<subseteq>\<^sub>m view s) \<and>
     (\<forall>s k b. view (tcSet tc s k b DefaultTTL) \<subseteq>\<^sub>m (view s)(k \<mapsto> b))"

definition mcContract :: "'s mcache \<Rightarrow> ('s \<Rightarrow> string \<rightharpoonup> string) \<Rightarrow> bool" where
  "mcContract mc view \<longleftrightarrow>
     (\<forall>s k. (case fst (mcGet mc s k) of Inr (b, True) \<Rightarrow> view s k = Some b | _ \<Rightarrow> True)
            \<and> view (snd (mcGet mc s k)) \<subseteq>\<^sub>m view s) \<and>
     (\<forall>s k b. view (snd (mcSet mc s k b)) \<subseteq>\<^sub>m (view s)(k \<mapsto> b)
            \<or> fst (mcSet mc s k b) \<noteq> None \<and> view (snd (mcSet mc s k b)) \<subseteq>\<^sub>m view s)"

text \<open>The responses a store can answer with, by key.\<close>

definition storedBy ::
  "respCodec \<Rightarrow> ('s \<Rightarrow> string \<rightharpoonup> string) \<Rightarrow> 's \<Rightarrow> string \<Rightarrow> DataResponseV1 \<Rightarrow> bool" where
  "storedBy cd view s k res \<longleftrightarrow> (\<exists>b. view s k = Some b \<and> fromJSON cd b = Inr res)"

text \<open>
  The interface's contract, which the authorizer's proofs use: \<open>good\<close> states hold the store's own
  laws; a hit returns a response the state stores; reading adds none; writing adds at most the
  pair written.
\<close>

locale response_cache =
  fixes C :: "'s Cacher"
    and good :: "'s \<Rightarrow> bool"
    and stored :: "'s \<Rightarrow> string \<Rightarrow> DataResponseV1 \<Rightarrow> bool"
    and faithful :: "DataResponseV1 \<Rightarrow> bool"
  assumes get_hit: "good s \<Longrightarrow> cacheGet C s k = (Inr (res, True), s') \<Longrightarrow> stored s k res"
    and get_good: "good s \<Longrightarrow> good (snd (cacheGet C s k))"
    and get_stored: "good s \<Longrightarrow> stored (snd (cacheGet C s k)) k' res' \<Longrightarrow> stored s k' res'"
    and set_good: "good s \<Longrightarrow> good (snd (cacheSet C s k res))"
    and set_stored: "good s \<Longrightarrow> faithful res \<Longrightarrow> stored (snd (cacheSet C s k res)) k' res' \<Longrightarrow>
      stored s k' res' \<or> k' = k \<and> res' = res"
    and set_replaces: "good s \<Longrightarrow> faithful res \<Longrightarrow> cacheSet C s k res = (None, s') \<Longrightarrow>
      stored s' k res' \<Longrightarrow> res' = res"
begin

text \<open>After a write that succeeded, a read of the key is a miss, an error or the written response.\<close>

lemma no_stale:
  assumes "good s" "faithful res" "cacheSet C s k res = (None, s')"
    and "cacheGet C s' k = (Inr (res', True), s'')"
  shows "res' = res"
proof -
  from assms set_good [of s k res] have "good s'" by simp
  with assms show ?thesis using get_hit set_replaces by metis
qed

text \<open>A property of all stored pairs survives the two operations when the written pair has it.\<close>

lemma get_keeps_all:
  assumes "good s" "\<And>k res. stored s k res \<Longrightarrow> P k res"
    and "cacheGet C s k = (x, s')"
  shows "good s' \<and> (\<forall>k res. stored s' k res \<longrightarrow> P k res)"
  using assms get_good [of s k] get_stored [of s k] by auto

lemma set_keeps_all:
  assumes "good s" "\<And>k res. stored s k res \<Longrightarrow> P k res" "faithful res" "P k res"
    and "cacheSet C s k res = (e, s')"
  shows "good s' \<and> (\<forall>k res. stored s' k res \<longrightarrow> P k res)"
  using assms set_good [of s k res] set_stored [of s res k] by auto

end

section \<open>The two implementations meet the contract\<close>

lemma toJSON_Inr: "toJSON cd res = Inr b \<longleftrightarrow> marshalResponse cd res = Inr b"
  by (simp add: toJSON_def split: sum.splits)

lemma fromJSON_toJSON:
  "codecKeeps cd res \<Longrightarrow> toJSON cd res = Inr b \<Longrightarrow> fromJSON cd b = Inr res"
  by (simp add: codecKeeps_def toJSON_Inr fromJSON_def)

lemma storedBy_map_le: "view' \<subseteq>\<^sub>m view \<Longrightarrow> view' k = Some b \<Longrightarrow> view k = Some b"
  by (metis domI map_le_def)

lemma storedBy_map_upd:
  "view' \<subseteq>\<^sub>m view(k \<mapsto> b) \<Longrightarrow> view' k' = Some b' \<Longrightarrow> view k' = Some b' \<or> k' = k \<and> b' = b"
  by (auto dest!: storedBy_map_le [of _ _ k' b'] split: if_splits)

lemma ttlContractD:
  assumes "ttlContract tc view"
  shows "case fst (tcGet tc s k) of None \<Rightarrow> True | Some b \<Rightarrow> view s k = Some b"
    and "view (snd (tcGet tc s k)) \<subseteq>\<^sub>m view s"
    and "view (tcSet tc s k b DefaultTTL) \<subseteq>\<^sub>m (view s)(k \<mapsto> b)"
  using assms by (auto simp: ttlContract_def)

lemma mcContractD:
  assumes "mcContract mc view"
  shows "case fst (mcGet mc s k) of Inr (b, True) \<Rightarrow> view s k = Some b | _ \<Rightarrow> True"
    and "view (snd (mcGet mc s k)) \<subseteq>\<^sub>m view s"
    and "view (snd (mcSet mc s k b)) \<subseteq>\<^sub>m (view s)(k \<mapsto> b)
      \<or> fst (mcSet mc s k b) \<noteq> None \<and> view (snd (mcSet mc s k b)) \<subseteq>\<^sub>m view s"
  using assms by (auto simp: mcContract_def)

lemma ttlContract_get:
  "ttlContract tc view \<Longrightarrow> tcGet tc s k = (Some b, s') \<Longrightarrow> view s k = Some b"
  using ttlContractD(1) [of tc view s k] by simp

lemma ttlContract_get_view:
  "ttlContract tc view \<Longrightarrow> view (snd (tcGet tc s k)) k' = Some b' \<Longrightarrow> view s k' = Some b'"
  using ttlContractD(2) [of tc view s k] by (rule storedBy_map_le)

lemma ttlContract_set:
  "ttlContract tc view \<Longrightarrow> view (tcSet tc s k b DefaultTTL) k' = Some b' \<Longrightarrow>
   view s k' = Some b' \<or> k' = k \<and> b' = b"
  using ttlContractD(3) [of tc view s k b] by (rule storedBy_map_upd)

lemma mcContract_get:
  "mcContract mc view \<Longrightarrow> mcGet mc s k = (Inr (b, True), s') \<Longrightarrow> view s k = Some b"
  using mcContractD(1) [of mc view s k] by simp

lemma mcContract_get_view:
  "mcContract mc view \<Longrightarrow> view (snd (mcGet mc s k)) k' = Some b' \<Longrightarrow> view s k' = Some b'"
  using mcContractD(2) [of mc view s k] by (rule storedBy_map_le)

lemma mcContract_set:
  assumes "mcContract mc view" "view (snd (mcSet mc s k b)) k' = Some b'"
  shows "view s k' = Some b' \<or> k' = k \<and> b' = b"
  using mcContractD(3) [OF assms(1), of s k b]
proof
  assume "view (snd (mcSet mc s k b)) \<subseteq>\<^sub>m (view s)(k \<mapsto> b)"
  from storedBy_map_upd [OF this assms(2)] show ?thesis .
next
  assume "fst (mcSet mc s k b) \<noteq> None \<and> view (snd (mcSet mc s k b)) \<subseteq>\<^sub>m view s"
  then have "view (snd (mcSet mc s k b)) \<subseteq>\<^sub>m view s" by simp
  from storedBy_map_le [OF this assms(2)] show ?thesis ..
qed

lemma map_upd_same: "view' \<subseteq>\<^sub>m view(k \<mapsto> b) \<Longrightarrow> view' k = Some b' \<Longrightarrow> b' = b"
  by (auto dest: storedBy_map_le)

interpretation inmemoryCache: response_cache "inmemory cd tc" "\<lambda>s. ttlContract tc view"
  "storedBy cd view" "codecKeeps cd" for cd tc view
proof unfold_locales
  fix s s' k res
  assume "ttlContract tc view" "cacheGet (inmemory cd tc) s k = (Inr (res, True), s')"
  then show "storedBy cd view s k res"
    by (auto simp: inmemory_def inmemory_Get_def storedBy_def split: prod.splits option.splits
        sum.splits dest: ttlContract_get)
next
  fix s k k' res'
  assume "ttlContract tc view" "storedBy cd view (snd (cacheGet (inmemory cd tc) s k)) k' res'"
  moreover have "snd (cacheGet (inmemory cd tc) s k) = snd (tcGet tc s k)"
    by (simp add: inmemory_def inmemory_Get_def split: prod.splits option.splits sum.splits)
  ultimately show "storedBy cd view s k' res'"
    by (auto simp: storedBy_def dest: ttlContract_get_view)
next
  fix s k res k' res'
  assume "ttlContract tc view" "codecKeeps cd res"
    and "storedBy cd view (snd (cacheSet (inmemory cd tc) s k res)) k' res'"
  then show "storedBy cd view s k' res' \<or> k' = k \<and> res' = res"
    by (auto simp: inmemory_def inmemory_Set_def storedBy_def split: sum.splits
        dest!: ttlContract_set dest: fromJSON_toJSON)
next
  fix s s' k res res'
  assume a: "ttlContract tc view" "codecKeeps cd res"
    and "cacheSet (inmemory cd tc) s k res = (None, s')" "storedBy cd view s' k res'"
  then obtain v b where v: "toJSON cd res = Inr v" "s' = tcSet tc s k v DefaultTTL"
    and b: "view s' k = Some b" "fromJSON cd b = Inr res'"
    by (auto simp: inmemory_def inmemory_Set_def storedBy_def split: sum.splits)
  with map_upd_same [OF ttlContractD(3) [OF a(1)]] have "b = v" by metis
  with a(2) v(1) b(2) show "res' = res" using fromJSON_toJSON by fastforce
qed simp_all

interpretation memcachedCache: response_cache "memcache cd mc" "\<lambda>s. mcContract mc view"
  "storedBy cd view" "codecKeeps cd" for cd mc view
proof unfold_locales
  fix s s' k res
  assume "mcContract mc view" "cacheGet (memcache cd mc) s k = (Inr (res, True), s')"
  then show "storedBy cd view s k res"
    by (auto simp: memcache_def memcache_Get_def storedBy_def split: prod.splits option.splits
        sum.splits if_splits dest: mcContract_get)
next
  fix s k k' res'
  assume "mcContract mc view" "storedBy cd view (snd (cacheGet (memcache cd mc) s k)) k' res'"
  moreover have "snd (cacheGet (memcache cd mc) s k) = snd (mcGet mc s k)"
    by (simp add: memcache_def memcache_Get_def split: prod.splits option.splits sum.splits)
  ultimately show "storedBy cd view s k' res'"
    by (auto simp: storedBy_def dest: mcContract_get_view)
next
  fix s k res k' res'
  assume a: "mcContract mc view" "codecKeeps cd res"
    and st: "storedBy cd view (snd (cacheSet (memcache cd mc) s k res)) k' res'"
  show "storedBy cd view s k' res' \<or> k' = k \<and> res' = res"
  proof (cases "toJSON cd res")
    case (Inl err)
    with st show ?thesis by (simp add: memcache_def memcache_Set_def)
  next
    case (Inr v)
    then have "snd (cacheSet (memcache cd mc) s k res) = snd (mcSet mc s k v)"
      by (simp add: memcache_def memcache_Set_def split: prod.splits option.splits)
    with st a Inr show ?thesis
      by (auto simp: storedBy_def dest!: mcContract_set dest: fromJSON_toJSON)
  qed
next
  fix s s' k res res'
  assume a: "mcContract mc view" "codecKeeps cd res"
    and "cacheSet (memcache cd mc) s k res = (None, s')" "storedBy cd view s' k res'"
  then obtain v b where v: "toJSON cd res = Inr v" "mcSet mc s k v = (None, s')"
    and b: "view s' k = Some b" "fromJSON cd b = Inr res'"
    by (auto simp: memcache_def memcache_Set_def storedBy_def split: sum.splits prod.splits option.splits)
  from mcContractD(3) [OF a(1), of s k v] v(2) have "view s' \<subseteq>\<^sub>m (view s)(k \<mapsto> v)" by simp
  from map_upd_same [OF this b(1)] have "b = v" .
  with a(2) v(1) b(2) show "res' = res" using fromJSON_toJSON by fastforce
qed simp_all

section \<open>The documented JSON form of a response\<close>

text \<open>
  A concrete codec: OPA's REST API answers with an object whose member \<open>result\<close> is the value and
  leaves it out when there is none. It shows that the hypotheses on the codec can hold.
\<close>

definition opaCodec :: respCodec where
  "opaCodec =
     \<lparr>marshalResponse = (\<lambda>res. Marshal (JObj
        (case Result res of None \<Rightarrow> [] | Some v \<Rightarrow> [(''result'', v)]))),
      unmarshalResponse = (\<lambda>b. case parse b of
        Some (JObj ms) \<Rightarrow> Inr \<lparr>Result = map_of ms ''result''\<rparr>
      | _ \<Rightarrow> Inl (Errorf ''json: cannot unmarshal''))\<rparr>"

lemma plainJson_encodeDecision:
  assumes "readable d" "Result (encodeDecision d) = Some v"
  shows "plainJson (maxNestingDepth - 1) v"
proof (cases d)
  case (Restrict keys op ns)
  with assms have "plainJson maxNestingDepth (restrictJson keys op ns)"
    by (intro plainJson_restrictJson) auto
  then have "validUtf8 (render (restrictJson keys op ns))" by (rule validUtf8_render)
  with assms Restrict show ?thesis
    by (auto simp: utf8Size_ascii maxNestingDepth_def)
qed (use assms in \<open>auto simp: minimalDataResponseV1_def\<close>)

text \<open>What the program builds has a result.\<close>

lemma encodeDecision_result: "\<exists>v. Result (encodeDecision d) = Some v"
  by (cases d) (simp_all add: minimalDataResponseV1_def)

lemma codecKeeps_opaCodec:
  assumes "readable d"
  shows "codecKeeps opaCodec (encodeDecision d)"
proof -
  obtain v where v: "Result (encodeDecision d) = Some v" using encodeDecision_result by blast
  have "plainJson maxNestingDepth (JObj [(''result'', v)])"
    using plainJson_encodeDecision [OF assms v] by (simp add: maxNestingDepth_def utf8Size_ascii)
  from parse_render [OF this] v show ?thesis
    by (simp add: codecKeeps_def opaCodec_def Marshal_def del: render.simps)
qed

text \<open>Stores that lose nothing, kept as a map; they show that the contracts can hold.\<close>

definition mapTtlcache :: "(string \<rightharpoonup> string) ttlcache" where
  "mapTtlcache = \<lparr>tcGet = (\<lambda>s k. (s k, s)), tcSet = (\<lambda>s k v t. s(k \<mapsto> v)),
     tcMetrics = (\<lambda>s. \<lparr>Insertions = 0, Hits = 0, Misses = 0, Evictions = 0\<rparr>)\<rparr>"

definition mapMcache :: "(string \<rightharpoonup> string) mcache" where
  "mapMcache =
     \<lparr>mcGet = (\<lambda>s k. (case s k of Some v \<Rightarrow> Inr (v, True) | None \<Rightarrow> Inr ([], False), s)),
      mcSet = (\<lambda>s k v. (None, s(k \<mapsto> v)))\<rparr>"

lemma ttlContract_mapTtlcache: "ttlContract mapTtlcache id"
  by (auto simp: ttlContract_def mapTtlcache_def split: option.splits)

lemma mcContract_mapMcache: "mcContract mapMcache id"
  by (auto simp: mcContract_def mapMcache_def split: option.splits)

section \<open>Properties\<close>

text \<open>
  C34: the time-to-live handed to the in-memory cache is the configured number of seconds in
  nanoseconds; the product of the two 64-bit integers never overflows, for any 32-bit setting,
  negative ones included.
\<close>

theorem expireDuration_exact: "sint (expireDuration expire) = sint expire * 1000000000"
proof -
  have "- (2 ^ 31) \<le> sint expire" "sint expire < 2 ^ 31"
    using sint_ge [of expire] sint_lt [of expire] by simp_all
  then have range: "- (2 ^ 63) \<le> sint expire * 1000000000" "sint expire * 1000000000 < 2 ^ 63"
    by simp_all
  have e: "expireDuration expire = word_of_int (sint expire * 1000000000)"
    unfolding expireDuration_def time_Second_def scast_eq
    by (simp only: wi_homs(3) [symmetric] word_of_int_numeral)
  have "signed_take_bit 63 (sint expire * 1000000000) = sint expire * 1000000000"
    by (rule signed_take_bit_int_eq_self) (use range in simp_all)
  then show ?thesis unfolding e sint_sbintrunc' by simp
qed

text \<open>
  C25: a decision written to the in-memory cache is read back as that decision or not at
  all: after a Set that returned no error, a Get of the key that hits returns a response that
  reads as the decision the written response was built for, whatever the store held under the key
  before, provided the codec keeps the response.
\<close>

theorem inmemory_Set_Get:
  assumes "ttlContract tc view" "codecKeeps cd (encodeDecision d)" "readable d"
    and "inmemory_Set cd tc s k (encodeDecision d) = (None, s')"
    and "inmemory_Get cd tc s' k = (Inr (res, True), s'')"
  shows "readResponse res = Some d"
  using assms inmemoryCache.no_stale [of tc view cd "encodeDecision d" s k s' res s'']
    readResponse_encodeDecision [of d]
  by (simp add: inmemory_def)

theorem inmemory_Set_Get_witness:
  "readResponse (encodeDecision AllowAll) = Some AllowAll"
proof -
  have keeps: "codecKeeps opaCodec (encodeDecision AllowAll)" by (rule codecKeeps_opaCodec) simp
  then obtain b where b: "toJSON opaCodec (encodeDecision AllowAll) = Inr b"
    "fromJSON opaCodec b = Inr (encodeDecision AllowAll)"
    using fromJSON_toJSON by (auto simp: codecKeeps_def toJSON_Inr split: sum.splits)
  have set: "inmemory_Set opaCodec mapTtlcache Map.empty ''k'' (encodeDecision AllowAll) = (None, Map.empty(''k'' \<mapsto> b))"
    using b by (simp add: inmemory_Set_def mapTtlcache_def)
  have get: "inmemory_Get opaCodec mapTtlcache (Map.empty(''k'' \<mapsto> b)) ''k'' =
      (Inr (encodeDecision AllowAll, True), Map.empty(''k'' \<mapsto> b))"
    using b by (simp add: inmemory_Get_def mapTtlcache_def)
  show ?thesis
    by (rule inmemory_Set_Get [OF ttlContract_mapTtlcache keeps _ set get]) simp
qed

text \<open>
  C26: the same for memcached, where a Set may also fail: after one that returned no error, a
  Get of the key that hits yields the decision written.
\<close>

theorem memcache_Set_Get:
  assumes "mcContract mc view" "codecKeeps cd (encodeDecision d)" "readable d"
    and "memcache_Set cd mc s k (encodeDecision d) = (None, s')"
    and "memcache_Get cd mc s' k = (Inr (res, True), s'')"
  shows "readResponse res = Some d"
  using assms memcachedCache.no_stale [of mc view cd "encodeDecision d" s k s' res s'']
    readResponse_encodeDecision [of d]
  by (simp add: memcache_def)

theorem memcache_Set_Get_witness:
  "readResponse (encodeDecision Deny) = Some Deny"
proof -
  have keeps: "codecKeeps opaCodec (encodeDecision Deny)" by (rule codecKeeps_opaCodec) simp
  then obtain b where b: "toJSON opaCodec (encodeDecision Deny) = Inr b"
    "fromJSON opaCodec b = Inr (encodeDecision Deny)"
    using fromJSON_toJSON by (auto simp: codecKeeps_def toJSON_Inr split: sum.splits)
  have set: "memcache_Set opaCodec mapMcache Map.empty ''k'' (encodeDecision Deny) = (None, Map.empty(''k'' \<mapsto> b))"
    using b by (simp add: memcache_Set_def mapMcache_def)
  have get: "memcache_Get opaCodec mapMcache (Map.empty(''k'' \<mapsto> b)) ''k'' =
      (Inr (encodeDecision Deny, True), Map.empty(''k'' \<mapsto> b))"
    using b by (simp add: memcache_Get_def mapMcache_def)
  show ?thesis
    by (rule memcache_Set_Get [OF mcContract_mapMcache keeps _ set get]) simp
qed

section \<open>The exported counters\<close>

text \<open>
  What ttlcache documents of its counters: a Get counts a hit or a miss, a Set neither.
\<close>

definition countsLookups :: "'s ttlcache \<Rightarrow> bool" where
  "countsLookups tc \<longleftrightarrow>
     (\<forall>s k. let (item, s') = tcGet tc s k
            in Hits (tcMetrics tc s') = Hits (tcMetrics tc s) + (if item \<noteq> None then 1 else 0)
             \<and> Misses (tcMetrics tc s') = Misses (tcMetrics tc s) + (if item = None then 1 else 0)) \<and>
     (\<forall>s k v t. Hits (tcMetrics tc (tcSet tc s k v t)) = Hits (tcMetrics tc s)
            \<and> Misses (tcMetrics tc (tcSet tc s k v t)) = Misses (tcMetrics tc s))"

text \<open>A store of that kind.\<close>

definition countingTtlcache :: "((string \<rightharpoonup> string) \<times> ttlMetrics) ttlcache" where
  "countingTtlcache =
     \<lparr>tcGet = (\<lambda>(s, m) k. (s k,
        (s, if s k = None then m\<lparr>Misses := Misses m + 1\<rparr> else m\<lparr>Hits := Hits m + 1\<rparr>))),
      tcSet = (\<lambda>(s, m) k v t. (s(k \<mapsto> v), m\<lparr>Insertions := Insertions m + (if s k = None then 1 else 0)\<rparr>)),
      tcMetrics = snd\<rparr>"

lemma countsLookups_example: "countsLookups countingTtlcache"
  by (auto simp: countsLookups_def countingTtlcache_def)

text \<open>A sequence of operations of the cache, with the results of its lookups.\<close>

datatype cacheOp = LookUp string | Write string DataResponseV1

fun cacheOps ::
  "respCodec \<Rightarrow> 's ttlcache \<Rightarrow> 's \<Rightarrow> cacheOp list \<Rightarrow> (go_error + DataResponseV1 \<times> bool) list \<times> 's" where
  "cacheOps cd tc s [] = ([], s)"
| "cacheOps cd tc s (LookUp k # ops) =
     (let (r, s') = inmemory_Get cd tc s k; (rs, s'') = cacheOps cd tc s' ops in (r # rs, s''))"
| "cacheOps cd tc s (Write k res # ops) = cacheOps cd tc (snd (inmemory_Set cd tc s k res)) ops"

definition missed :: "go_error + DataResponseV1 \<times> bool \<Rightarrow> bool" where
  "missed r \<longleftrightarrow> (case r of Inl err \<Rightarrow> False | Inr (res, ok) \<Rightarrow> \<not> ok)"

lemma inmemory_Get_counts:
  assumes "countsLookups tc" "inmemory_Get cd tc s k = (r, s')"
  shows "Hits (tcMetrics tc s') = Hits (tcMetrics tc s) + (if missed r then 0 else 1)"
    and "Misses (tcMetrics tc s') = Misses (tcMetrics tc s) + (if missed r then 1 else 0)"
  using assms
  by (auto simp: countsLookups_def inmemory_Get_def missed_def Let_def
      split: prod.splits option.splits sum.splits if_splits)

lemma inmemory_Set_counts:
  assumes "countsLookups tc"
  shows "Hits (tcMetrics tc (snd (inmemory_Set cd tc s k res))) = Hits (tcMetrics tc s)"
    and "Misses (tcMetrics tc (snd (inmemory_Set cd tc s k res))) = Misses (tcMetrics tc s)"
  using assms by (auto simp: countsLookups_def inmemory_Set_def split: sum.splits)

text \<open>The two counters are exact, modulo their width.\<close>

lemma cacheOps_counts:
  assumes "countsLookups tc" "cacheOps cd tc s ops = (rs, s')"
  shows "Hits (tcMetrics tc s') = Hits (tcMetrics tc s) + of_nat (length (filter (\<lambda>r. \<not> missed r) rs))
    \<and> Misses (tcMetrics tc s') = Misses (tcMetrics tc s) + of_nat (length (filter missed rs))"
  using assms
proof (induction cd tc s ops arbitrary: rs rule: cacheOps.induct)
  case (2 cd tc s k ops)
  obtain r s1 where r: "inmemory_Get cd tc s k = (r, s1)" by fastforce
  obtain rs' s2 where rs': "cacheOps cd tc s1 ops = (rs', s2)" by fastforce
  from 2 r rs' inmemory_Get_counts [OF 2(2) r] show ?case by auto
qed (auto simp: inmemory_Set_counts)

text \<open>Collect sends them under the labels hit and miss, with as many labels as Describe announced.\<close>

lemma Collect_counts:
  assumes "countsLookups tc" "Hits (tcMetrics tc s) = 0" "Misses (tcMetrics tc s) = 0"
    and "cacheOps cd tc s ops = (rs, s')"
  shows "\<forall>m \<in> set (Collect fl tc s'). desc m \<in> set Describe
      \<and> length (labelValues m) = length (variableLabels (desc m))
      \<and> (labelValues m = [''hit''] \<longrightarrow> val m = fl (of_nat (length (filter (\<lambda>r. \<not> missed r) rs))))
      \<and> (labelValues m = [''miss''] \<longrightarrow> val m = fl (of_nat (length (filter missed rs))))"
  using cacheOps_counts [OF assms(1,4)] assms(2,3)
  by (simp add: Collect_def Describe_def cache_metric_defs Let_def)

end
