(* ===== verification/Go_Sha256.thy ===== *)
theory Go_Sha256
  imports Go_Prelude "HOL-Library.Word"
begin

text \<open>
  The hash of Go's package crypto/sha256 as the cache keys use it (FIPS 180-4 over bytes), and
  its lower-case hexadecimal rendering by fmt.Sprintf("%x"). A hash under construction is the
  list of the bytes written so far: Write appends, Sum hashes what has been written.

  The proofs of the development need two facts only: a digest has 32 bytes, and its rendering
  determines it. Collision freedom is never assumed (no function into 32 bytes has it); a
  theorem that depends on it names the colliding inputs instead, with \<open>collision\<close>.
\<close>

unbundle bit_operations_syntax

type_synonym u32 = "32 word"
type_synonym byte = "8 word"

definition rotr :: "nat \<Rightarrow> u32 \<Rightarrow> u32" where
  "rotr n x = drop_bit n x OR push_bit (32 - n) x"

definition bigSigma0 :: "u32 \<Rightarrow> u32" where
  "bigSigma0 x = rotr 2 x XOR rotr 13 x XOR rotr 22 x"

definition bigSigma1 :: "u32 \<Rightarrow> u32" where
  "bigSigma1 x = rotr 6 x XOR rotr 11 x XOR rotr 25 x"

definition sigma0 :: "u32 \<Rightarrow> u32" where
  "sigma0 x = rotr 7 x XOR rotr 18 x XOR drop_bit 3 x"

definition sigma1 :: "u32 \<Rightarrow> u32" where
  "sigma1 x = rotr 17 x XOR rotr 19 x XOR drop_bit 10 x"

definition ch :: "u32 \<Rightarrow> u32 \<Rightarrow> u32 \<Rightarrow> u32" where
  "ch x y z = (x AND y) XOR (NOT x AND z)"

definition maj :: "u32 \<Rightarrow> u32 \<Rightarrow> u32 \<Rightarrow> u32" where
  "maj x y z = (x AND y) XOR (x AND z) XOR (y AND z)"

text \<open>The constants: the fractional parts of the cube roots of the first 64 primes.\<close>

definition round_constants :: "u32 list" where
  "round_constants =
    [1116352408, 1899447441, 3049323471, 3921009573, 961987163, 1508970993,
     2453635748, 2870763221, 3624381080, 310598401, 607225278, 1426881987,
     1925078388, 2162078206, 2614888103, 3248222580, 3835390401, 4022224774,
     264347078, 604807628, 770255983, 1249150122, 1555081692, 1996064986,
     2554220882, 2821834349, 2952996808, 3210313671, 3336571891, 3584528711,
     113926993, 338241895, 666307205, 773529912, 1294757372, 1396182291,
     1695183700, 1986661051, 2177026350, 2456956037, 2730485921, 2820302411,
     3259730800, 3345764771, 3516065817, 3600352804, 4094571909, 275423344,
     430227734, 506948616, 659060556, 883997877, 958139571, 1322822218,
     1537002063, 1747873779, 1955562222, 2024104815, 2227730452, 2361852424,
     2428436474, 2756734187, 3204031479, 3329325298]"

type_synonym digest_state = "u32 \<times> u32 \<times> u32 \<times> u32 \<times> u32 \<times> u32 \<times> u32 \<times> u32"

definition initial_state :: digest_state where
  "initial_state = (1779033703, 3144134277, 1013904242, 2773480762, 1359893119, 2600822924, 528734635, 1541459225)"

text \<open>The message schedule, with the words in reverse order while it is extended.\<close>

fun schedule :: "nat \<Rightarrow> u32 list \<Rightarrow> u32 list" where
  "schedule 0 ws = rev ws"
| "schedule (Suc n) ws =
     schedule n ((sigma1 (ws ! 1) + ws ! 6 + sigma0 (ws ! 14) + ws ! 15) # ws)"

fun sha_round :: "digest_state \<Rightarrow> u32 \<times> u32 \<Rightarrow> digest_state" where
  "sha_round (a, b, c, d, e, f, g, h) (k, w) =
     (let t1 = h + bigSigma1 e + ch e f g + k + w;
          t2 = bigSigma0 a + maj a b c
      in (t1 + t2, a, b, c, d + t1, e, f, g))"

fun state_add :: "digest_state \<Rightarrow> digest_state \<Rightarrow> digest_state" where
  "state_add (a, b, c, d, e, f, g, h) (a', b', c', d', e', f', g', h') =
     (a + a', b + b', c + c', d + d', e + e', f + f', g + g', h + h')"

definition compress :: "digest_state \<Rightarrow> u32 list \<Rightarrow> digest_state" where
  "compress s ws =
     state_add s (foldl sha_round s (zip round_constants (schedule 48 (rev ws))))"

fun be_words :: "byte list \<Rightarrow> u32 list" where
  "be_words (a # b # c # d # bs) =
     (push_bit 24 (ucast a) OR push_bit 16 (ucast b) OR push_bit 8 (ucast c) OR ucast d) # be_words bs"
| "be_words _ = []"

fun blocks :: "nat \<Rightarrow> u32 list \<Rightarrow> u32 list list" where
  "blocks 0 ws = []"
| "blocks (Suc n) ws = take 16 ws # blocks n (drop 16 ws)"

definition be_bytes :: "nat \<Rightarrow> 64 word \<Rightarrow> byte list" where
  "be_bytes n x = map (\<lambda>i. ucast (drop_bit (8 * i) x)) (rev [0..<n])"

text \<open>Padding: the bit 1, zeros up to 56 modulo 64 bytes, the length in bits.\<close>

definition pad :: "byte list \<Rightarrow> byte list" where
  "pad bs =
     (let n = length bs; z = (119 - n mod 64) mod 64
      in bs @ [0x80] @ replicate z 0 @ be_bytes 8 (of_nat (8 * n)))"

fun state_words :: "digest_state \<Rightarrow> u32 list" where
  "state_words (a, b, c, d, e, f, g, h) = [a, b, c, d, e, f, g, h]"

definition word_bytes :: "u32 \<Rightarrow> byte list" where
  "word_bytes w = map (\<lambda>i. ucast (drop_bit (8 * i) w)) [3, 2, 1, 0]"

definition sha256 :: "byte list \<Rightarrow> byte list" where
  "sha256 bs =
     (let ws = be_words (pad bs)
      in concat (map word_bytes (state_words
           (foldl compress initial_state (blocks (length ws div 16) ws)))))"

section \<open>The interface the cache key uses\<close>

definition bytes :: "string \<Rightarrow> byte list" where
  "bytes s = map of_char s"

definition sha256_New :: "byte list" where
  "sha256_New = []"

definition hash_Write :: "byte list \<Rightarrow> string \<Rightarrow> byte list" where
  "hash_Write h s = h @ bytes s"

text \<open>A loop that writes every string of a list to a hash.\<close>

fun hash_WriteAll :: "byte list \<Rightarrow> string list \<Rightarrow> byte list" where
  "hash_WriteAll h [] = h"
| "hash_WriteAll h (s # ss) = hash_WriteAll (hash_Write h s) ss"

definition hash_Sum :: "byte list \<Rightarrow> byte list" where
  "hash_Sum h = sha256 h"

definition hexAlphabet :: string where
  "hexAlphabet = ''0123456789abcdef''"

definition hexDigit :: "nat \<Rightarrow> char" where
  "hexDigit n = hexAlphabet ! n"

definition hex :: "byte list \<Rightarrow> string" where
  "hex bs = concat (map (\<lambda>b. [hexDigit (unat b div 16), hexDigit (unat b mod 16)]) bs)"

definition collision :: "string \<Rightarrow> string \<Rightarrow> bool" where
  "collision x y \<longleftrightarrow> x \<noteq> y \<and> sha256 (bytes x) = sha256 (bytes y)"

section \<open>Lemmas\<close>

lemma length_sha256 [simp]: "length (sha256 bs) = 32"
proof -
  have words: "length (state_words s) = 8" for s by (cases s) auto
  have "length (concat (map word_bytes ws)) = 4 * length ws" for ws
    by (induction ws) (auto simp: word_bytes_def)
  then show ?thesis by (simp add: sha256_def Let_def words)
qed

lemma bytes_append [simp]: "bytes (x @ y) = bytes x @ bytes y"
  and bytes_Nil [simp]: "bytes [] = []"
  by (simp_all add: bytes_def)

lemma hash_WriteAll_eq: "hash_WriteAll h ss = h @ bytes (concat ss)"
  by (induction h ss rule: hash_WriteAll.induct) (auto simp: hash_Write_def)

lemma length_hex [simp]: "length (hex bs) = 2 * length bs"
  by (induction bs) (auto simp: hex_def)

lemma less_16_cases: "(n::nat) < 16 \<Longrightarrow> n \<in> {0,1,2,3,4,5,6,7,8,9,10,11,12,13,14,15}"
  by (simp, arith)

lemma hexDigit_inject: "m < 16 \<Longrightarrow> n < 16 \<Longrightarrow> hexDigit m = hexDigit n \<Longrightarrow> m = n"
  by (drule less_16_cases, drule less_16_cases) (auto simp: hexDigit_def hexAlphabet_def nth_Cons')

lemma hexDigit_alphabet: "n < 16 \<Longrightarrow> hexDigit n \<in> set hexAlphabet"
  unfolding hexDigit_def by (rule nth_mem) (simp add: hexAlphabet_def)

lemma unat_byte_less: "unat (b :: byte) < 256"
  using unsigned_less [of b, where 'a = nat] by simp

lemma set_hex: "set (hex bs) \<subseteq> set hexAlphabet"
proof -
  have "hexDigit (unat (b :: byte) div 16) \<in> set hexAlphabet"
    and "hexDigit (unat (b :: byte) mod 16) \<in> set hexAlphabet" for b
    using unat_byte_less [of b] by (auto intro!: hexDigit_alphabet)
  then show ?thesis by (auto simp: hex_def)
qed

lemma hex_notin [simp]: "CHR '','' \<notin> set (hex bs)" "CHR '':'' \<notin> set (hex bs)"
  using set_hex [of bs] by (auto simp: hexAlphabet_def)

lemma hex_inject: "hex a = hex b \<longleftrightarrow> a = b"
proof (induction a arbitrary: b)
  case Nil
  then show ?case by (cases b) (auto simp: hex_def)
next
  case (Cons x xs)
  show ?case
  proof (cases b)
    case Nil
    then show ?thesis by (simp add: hex_def)
  next
    case (Cons y ys)
    have "x = y" if "hexDigit (unat x div 16) = hexDigit (unat y div 16)"
      and "hexDigit (unat x mod 16) = hexDigit (unat y mod 16)"
    proof -
      from that have "unat x div 16 = unat y div 16" "unat x mod 16 = unat y mod 16"
        using unat_byte_less [of x] unat_byte_less [of y] by (auto intro: hexDigit_inject)
      then have "unat x = unat y" by (metis div_mult_mod_eq)
      then show ?thesis by (simp add: unsigned_word_eqI)
    qed
    with Cons.IH [of ys] Cons show ?thesis by (auto simp: hex_def)
  qed
qed

text \<open>Equal digests come from equal inputs or exhibit a collision.\<close>

lemma sha256_eq_or_collision:
  "sha256 (bytes x) = sha256 (bytes y) \<Longrightarrow> x = y \<or> collision x y"
  by (auto simp: collision_def)

end
