(* ===== verification/Cache_Key.thy ===== *)
theory Cache_Key
  imports Matcher Go_Sha256
begin

text \<open>
  The key under which an authorization decision is cached (internal/authorizer/cache.go).

  sort.Strings sorts in place, so hashing the user information also reorders the caller's slice
  of groups: \<open>hashUserinfo\<close> and \<open>generateCacheKey\<close> return the slice as they leave it. The
  clone that hashMatcher sorts is local. A nil *config.Matcher is \<^term>\<open>None\<close>.
\<close>

definition fmtBool :: "bool \<Rightarrow> string" where
  "fmtBool b = (if b then ''true'' else ''false'')"

definition hashUserinfo :: "string \<Rightarrow> string \<Rightarrow> string list \<Rightarrow> string \<times> string list" where
  "hashUserinfo token user groups =
     (let hash = hash_Write (hash_Write sha256_New token) user;
          groups' = sort_Strings groups;
          hash' = hash_WriteAll hash groups'
      in (user @ '':'' @ hex (hash_Sum hash'), groups'))"

definition hashMatcher :: "Matcher option \<Rightarrow> string" where
  "hashMatcher matcher =
     (case matcher of
        None \<Rightarrow> ''m:empty''
      | Some m \<Rightarrow>
          if length (Keys m) = 0 then ''m:empty''
          else (let keysCopy = sort_Strings (Keys m);
                    hash = hash_WriteAll sha256_New keysCopy
                in ''m:'' @ hex (hash_Sum hash)))"

definition generateCacheKey ::
  "string \<Rightarrow> string \<Rightarrow> string list \<Rightarrow> string \<Rightarrow> string \<Rightarrow> string \<Rightarrow> string \<Rightarrow>
   string list \<Rightarrow> bool \<Rightarrow> Matcher option \<Rightarrow> string \<times> string list" where
  "generateCacheKey token user groups verb resource resourceName apiGroup namespaces
       metadataOnly matcher =
     (let (userHash, groups') = hashUserinfo token user groups;
          matcherHash = hashMatcher matcher
      in (join '','' [verb, fmtBool metadataOnly, apiGroup, resourceName, resource,
            join '':'' namespaces, userHash, matcherHash], groups'))"

section \<open>Lemmas\<close>

text \<open>What is hashed, as one string.\<close>

definition userPreimage :: "string \<Rightarrow> string \<Rightarrow> string list \<Rightarrow> string" where
  "userPreimage token user groups = token @ user @ concat (sort_Strings groups)"

definition matcherPreimage :: "string list \<Rightarrow> string" where
  "matcherPreimage keys = concat (sort_Strings keys)"

lemma hashUserinfo_eq:
  "hashUserinfo token user groups =
     (user @ '':'' @ hex (sha256 (bytes (userPreimage token user groups))), sort_Strings groups)"
  by (simp add: hashUserinfo_def hash_WriteAll_eq hash_Write_def sha256_New_def hash_Sum_def
      userPreimage_def Let_def)

lemma hashMatcher_eq:
  "hashMatcher (Some m) =
     (if Keys m = [] then ''m:empty'' else ''m:'' @ hex (sha256 (bytes (matcherPreimage (Keys m)))))"
  by (simp add: hashMatcher_def hash_WriteAll_eq sha256_New_def hash_Sum_def matcherPreimage_def)

lemma hashMatcher_notin [simp]: "CHR '','' \<notin> set (hashMatcher matcher)"
  by (cases matcher) (auto simp: hashMatcher_def Let_def hash_Sum_def)

lemma length_hashMatcher:
  "length (hashMatcher matcher) =
     (case matcher of None \<Rightarrow> 7 | Some m \<Rightarrow> if Keys m = [] then 7 else 66)"
  by (auto simp: hashMatcher_def Let_def hash_Sum_def split: option.split)

lemma hashMatcher_inject:
  assumes "hashMatcher (Some m) = hashMatcher (Some m')"
  shows "(Keys m = [] \<longleftrightarrow> Keys m' = [])
    \<and> (matcherPreimage (Keys m) = matcherPreimage (Keys m')
       \<or> collision (matcherPreimage (Keys m)) (matcherPreimage (Keys m')))"
proof -
  have "length (hashMatcher (Some m)) = length (hashMatcher (Some m'))" using assms by simp
  then have empty: "Keys m = [] \<longleftrightarrow> Keys m' = []"
    by (auto simp: length_hashMatcher split: if_splits)
  moreover have "matcherPreimage (Keys m) = matcherPreimage (Keys m')
       \<or> collision (matcherPreimage (Keys m)) (matcherPreimage (Keys m'))"
  proof (cases "Keys m = []")
    case True
    with empty show ?thesis by simp
  next
    case False
    with empty assms show ?thesis
      by (intro sha256_eq_or_collision) (simp add: hashMatcher_eq hex_inject)
  qed
  ultimately show ?thesis by blast
qed

lemma fst_generateCacheKey:
  "fst (generateCacheKey token user groups verb resource resourceName apiGroup namespaces md matcher) =
     join '','' [verb, fmtBool md, apiGroup, resourceName, resource, join '':'' namespaces,
       user @ '':'' @ hex (sha256 (bytes (userPreimage token user groups))), hashMatcher matcher]"
  by (simp add: generateCacheKey_def hashUserinfo_eq)

lemma snd_generateCacheKey [simp]:
  "snd (generateCacheKey token user groups verb resource resourceName apiGroup namespaces md matcher) =
     sort_Strings groups"
  by (simp add: generateCacheKey_def hashUserinfo_eq)

text \<open>The tail of a key: the user may contain commas and colons, the two hashes do not.\<close>

lemma key_tail_inject:
  assumes eq: "(u @ '':'' @ hex (sha256 a)) @ '','' @ hashMatcher m
             = (u' @ '':'' @ hex (sha256 a')) @ '','' @ hashMatcher m'"
  shows "u = u' \<and> sha256 a = sha256 a' \<and> hashMatcher m = hashMatcher m'"
proof -
  have "u @ CHR '':'' # hex (sha256 a) = u' @ CHR '':'' # hex (sha256 a') \<and> hashMatcher m = hashMatcher m'"
    using eq sep_inject_right [of "CHR '',''" "hashMatcher m" "hashMatcher m'"
        "u @ CHR '':'' # hex (sha256 a)" "u' @ CHR '':'' # hex (sha256 a')"] by simp
  then show ?thesis by (simp add: sep_inject_right hex_inject)
qed

lemma fmtBool_simps [simp]:
  "CHR '','' \<notin> set (fmtBool b)" "fmtBool b = fmtBool b' \<longleftrightarrow> b = b'"
  by (auto simp: fmtBool_def)

text \<open>The concatenated keys of two request matchers of one configuration tell them apart.\<close>

lemma remove1_eq_iff_length:
  "length (concat (remove1 a xs)) = length (concat xs) \<longleftrightarrow> a = [] \<and> a \<in> set xs \<or> a \<notin> set xs"
proof (cases "a \<in> set xs")
  case True
  with length_concat_remove1 [OF True] show ?thesis by auto
qed (simp add: remove1_idem)

lemma length_matcherPreimage: "length (matcherPreimage keys) = length (concat keys)"
  by (simp add: matcherPreimage_def length_concat_sort)

lemma remove1_keys_inject:
  assumes "length (concat (remove1 kubernetes_namespace_name xs)) =
           length (concat (remove1 k8s_namespace_name xs))"
  shows "remove1 kubernetes_namespace_name xs = remove1 k8s_namespace_name xs"
proof (cases "kubernetes_namespace_name \<in> set xs")
  case True
  from length_concat_remove1 [OF True] assms show ?thesis
    using length_concat_remove1 [of k8s_namespace_name xs]
    by (cases "k8s_namespace_name \<in> set xs") (simp_all add: remove1_idem)
next
  case False
  with assms show ?thesis
    using length_concat_remove1 [of k8s_namespace_name xs]
    by (cases "k8s_namespace_name \<in> set xs") (simp_all add: remove1_idem)
qed

lemma four_values_inject:
  assumes "x \<in> {[], k, a, b}" and "y \<in> {[], k, a, b}"
    and "f x = f y" and "x = [] \<longleftrightarrow> y = []"
    and "f a = f k \<Longrightarrow> a = k" and "f b = f k \<Longrightarrow> b = k" and "f a = f b \<Longrightarrow> a = b"
  shows "x = y"
  using assms by (elim insertE emptyE) fastforce+

lemma requestMatcher_Keys_inject:
  assumes "matcherPreimage (Keys (requestMatcher m viaq t g s)) =
           matcherPreimage (Keys (requestMatcher m viaq' t' g' s'))"
    and "Keys (requestMatcher m viaq t g s) = [] \<longleftrightarrow> Keys (requestMatcher m viaq' t' g' s') = []"
  shows "Keys (requestMatcher m viaq t g s) = Keys (requestMatcher m viaq' t' g' s')"
proof (rule four_values_inject [where f = "\<lambda>keys. length (concat keys)",
      OF requestMatcher_cases requestMatcher_cases _ assms(2)])
  show "length (concat (Keys (requestMatcher m viaq t g s))) =
        length (concat (Keys (requestMatcher m viaq' t' g' s')))"
    using assms(1) by (metis length_matcherPreimage)
qed (auto simp: remove1_eq_iff_length remove1_idem remove1_keys_inject)

lemma generateCacheKey_inject:
  assumes "fst (generateCacheKey t u g v r rn ag ns md (Some m)) =
           fst (generateCacheKey t' u' g' v' r' rn' ag' ns' md' (Some m'))"
    and "\<forall>x \<in> {v, v', ag, ag', rn, rn', r, r'}. CHR '','' \<notin> set x"
    and "\<forall>n \<in> set ns \<union> set ns'. n \<noteq> [] \<and> CHR '','' \<notin> set n \<and> CHR '':'' \<notin> set n"
  shows "v = v' \<and> md = md' \<and> ag = ag' \<and> rn = rn' \<and> r = r' \<and> ns = ns' \<and> u = u'
    \<and> (userPreimage t u g = userPreimage t' u' g'
       \<or> collision (userPreimage t u g) (userPreimage t' u' g'))
    \<and> (matcherPreimage (Keys m) = matcherPreimage (Keys m')
       \<or> collision (matcherPreimage (Keys m)) (matcherPreimage (Keys m')))"
proof -
  have notin: "CHR '','' \<notin> set (join '':'' ns)" "CHR '','' \<notin> set (join '':'' ns')"
    using assms(3) set_join [of "'':''" ns] set_join [of "'':''" ns'] by auto
  from assms(1,2) notin have eqs: "v = v'" "md = md'" "ag = ag'" "rn = rn'" "r = r'"
      "join '':'' ns = join '':'' ns'"
    and tail: "(u @ '':'' @ hex (sha256 (bytes (userPreimage t u g)))) @ '','' @ hashMatcher (Some m)
      = (u' @ '':'' @ hex (sha256 (bytes (userPreimage t' u' g')))) @ '','' @ hashMatcher (Some m')"
    by (auto simp: fst_generateCacheKey sep_inject_left simp del: join.simps(2)
        simp: join_Cons)
  have "ns = ns'"
    by (rule join_inject [OF _ _ eqs(6)]) (use assms(3) in auto)
  moreover note key_tail_inject [OF tail]
  ultimately show ?thesis
    using eqs hashMatcher_inject [of m m'] sha256_eq_or_collision by blast
qed

lemma userPreimage_split:
  "userPreimage t u g = userPreimage t' u g' \<Longrightarrow> length t = length t' \<Longrightarrow>
   t = t' \<and> concat (sort_Strings g) = concat (sort_Strings g')"
  by (simp add: userPreimage_def)

text \<open>For requests that differ in the groups only, the key is as good as the hashed string.\<close>

lemma generateCacheKey_groups:
  "fst (generateCacheKey t u g v r rn ag ns md matcher) = fst (generateCacheKey t u g' v r rn ag ns md matcher)
   \<longleftrightarrow> userPreimage t u g = userPreimage t u g' \<or> collision (userPreimage t u g) (userPreimage t u g')"
  by (auto simp: fst_generateCacheKey collision_def hex_inject)

section \<open>Properties\<close>

text \<open>
  C7: what equal keys say of two requests. When two requests have the same key, and neither the
  verbs, the API groups, the resources and their names nor the (non-empty) namespaces contain the
  separators of the key, then the requests agree in verb, metadata flag, API group, resource,
  resource name, namespaces and user. Of the token and the groups, and of the matcher, only a
  concatenation is in the key, as a hash: either the concatenation of the token, the user and the
  sorted groups is the same, or SHA-256 collides on it; likewise for the sorted keys of the matcher.
  When moreover the tokens have the same length, they are the same, and so are the concatenated
  groups. Nothing more follows; the last part of this theory shows what the key does not tell apart.
\<close>

theorem generateCacheKey_identifies_request:
  assumes "fst (generateCacheKey t u g v r rn ag ns md (Some m)) =
           fst (generateCacheKey t' u' g' v' r' rn' ag' ns' md' (Some m'))"
    and "\<forall>x \<in> {v, v', ag, ag', rn, rn', r, r'}. CHR '','' \<notin> set x"
    and "\<forall>n \<in> set ns \<union> set ns'. n \<noteq> [] \<and> CHR '','' \<notin> set n \<and> CHR '':'' \<notin> set n"
  shows "v = v' \<and> md = md' \<and> ag = ag' \<and> rn = rn' \<and> r = r' \<and> ns = ns' \<and> u = u'
    \<and> (userPreimage t u g = userPreimage t' u' g'
         \<and> (length t = length t' \<longrightarrow> t = t' \<and> concat (sort_Strings g) = concat (sort_Strings g'))
       \<or> collision (userPreimage t u g) (userPreimage t' u' g'))
    \<and> (matcherPreimage (Keys m) = matcherPreimage (Keys m')
       \<or> collision (matcherPreimage (Keys m)) (matcherPreimage (Keys m')))"
  using generateCacheKey_inject [OF assms] userPreimage_split [of t u g t' g'] by blast

theorem generateCacheKey_identifies_request_witness:
  "userPreimage ''tok'' ''joe'' [''b'', ''a''] = userPreimage ''tok'' ''joe'' [''a'', ''b'']
   \<or> collision (userPreimage ''tok'' ''joe'' [''b'', ''a'']) (userPreimage ''tok'' ''joe'' [''a'', ''b''])"
proof -
  have "fst (generateCacheKey ''tok'' ''joe'' [''b'', ''a''] ''get'' ''application'' ''logs''
      ''loki.grafana.com'' [''ns-1'', ''ns-2''] False (Some exampleMatcher))
    = fst (generateCacheKey ''tok'' ''joe'' [''a'', ''b''] ''get'' ''application'' ''logs''
      ''loki.grafana.com'' [''ns-1'', ''ns-2''] False (Some exampleMatcher))"
    by (simp add: fst_generateCacheKey userPreimage_def sort_Strings_def)
  from generateCacheKey_identifies_request [OF this] show ?thesis by auto
qed

text \<open>
  Within one process the cache never confuses label matchers. The matchers of two requests
  against the same configuration (exempt or not, migrated or not) have the same hash only if
  they have the same keys, or the two hashed strings are a SHA-256 collision.
\<close>

lemma hashMatcher_separates_requests:
  assumes "hashMatcher (Some (requestMatcher m viaq t g s)) =
           hashMatcher (Some (requestMatcher m viaq' t' g' s'))"
  shows "Keys (requestMatcher m viaq t g s) = Keys (requestMatcher m viaq' t' g' s')
    \<or> collision (matcherPreimage (Keys (requestMatcher m viaq t g s)))
                (matcherPreimage (Keys (requestMatcher m viaq' t' g' s')))"
  using hashMatcher_inject [OF assms] requestMatcher_Keys_inject by blast

lemma hashMatcher_separates_requests_example:
  "hashMatcher (Some (requestMatcher exampleMatcher True ''tenantB'' [] [])) =
     hashMatcher (Some (requestMatcher exampleMatcher True ''tenantA'' [''ops''] []))
   \<and> (Keys (requestMatcher exampleMatcher True ''tenantB'' [] []) =
        Keys (requestMatcher exampleMatcher True ''tenantA'' [''ops''] [])
      \<or> collision (matcherPreimage (Keys (requestMatcher exampleMatcher True ''tenantB'' [] [])))
           (matcherPreimage (Keys (requestMatcher exampleMatcher True ''tenantA'' [''ops''] []))))"
proof -
  have exempt: "ForRequest exampleMatcher ''tenantB'' [] = EmptyMatcher"
      "ForRequest exampleMatcher ''tenantA'' [''ops''] = EmptyMatcher"
    by (simp_all add: ForRequest_eq IsEmpty_iff)
      (simp_all add: exempt_def exampleMatcher_def dom_prepareMap)
  have h: "hashMatcher (Some (requestMatcher exampleMatcher True ''tenantB'' [] [])) =
     hashMatcher (Some (requestMatcher exampleMatcher True ''tenantA'' [''ops''] []))"
    by (simp add: requestMatcher_def exempt)
  with hashMatcher_separates_requests [OF h] show ?thesis by blast
qed

text \<open>
  The key does not depend on the order in which the identity provider lists the groups, nor
  on the order of the matcher's keys; and the slice of groups is left sorted.
\<close>

lemma generateCacheKey_order_independent:
  assumes "mset g = mset g'" and "mset (Keys m) = mset (Keys m')"
  shows "generateCacheKey t u g v r rn ag ns md (Some m) =
         generateCacheKey t u g' v r rn ag ns md (Some m')"
proof -
  have groups: "sort_Strings g = sort_Strings g'" and keys: "sort_Strings (Keys m) = sort_Strings (Keys m')"
    using assms by (simp_all add: sort_Strings_def properties_for_sort)
  from assms(2) have empty: "Keys m = [] \<longleftrightarrow> Keys m' = []" by (metis mset_zero_iff)
  have "hashMatcher (Some m) = hashMatcher (Some m')"
    by (simp add: hashMatcher_eq matcherPreimage_def keys empty)
  then show ?thesis by (simp add: generateCacheKey_def hashUserinfo_eq userPreimage_def groups)
qed

lemma generateCacheKey_order_independent_example:
  "generateCacheKey ''tok'' ''joe'' [''b'', ''a''] ''get'' ''application'' ''logs'' ''api'' [''ns-1''] False
     (Some exampleMatcher) =
   generateCacheKey ''tok'' ''joe'' [''a'', ''b''] ''get'' ''application'' ''logs'' ''api'' [''ns-1''] False
     (Some (exampleMatcher\<lparr>Keys := [k8s_namespace_name, kubernetes_namespace_name]\<rparr>))"
  by (rule generateCacheKey_order_independent) simp_all

text \<open>
  C40: the order of the namespaces, in contrast, is part of the key: reordering the namespaces of a
  request changes its key, so the cached decision is not found again under the new order.
\<close>

theorem generateCacheKey_namespace_order:
  assumes "\<forall>n \<in> set ns \<union> set ns'. n \<noteq> [] \<and> CHR '','' \<notin> set n \<and> CHR '':'' \<notin> set n"
    and "mset ns = mset ns'" and "ns \<noteq> ns'"
  shows "fst (generateCacheKey t u g v r rn ag ns md (Some m)) \<noteq>
         fst (generateCacheKey t u g v r rn ag ns' md (Some m))"
proof
  assume "fst (generateCacheKey t u g v r rn ag ns md (Some m)) =
          fst (generateCacheKey t u g v r rn ag ns' md (Some m))"
  then have "join '':'' ns = join '':'' ns'"
    by (simp add: fst_generateCacheKey)
  then have "ns = ns'"
    by (rule join_inject [rotated -1]) (use assms(1) in auto)
  with assms(3) show False by simp
qed

theorem generateCacheKey_namespace_order_witness:
  "fst (generateCacheKey ''tok'' ''joe'' [] ''get'' ''application'' ''logs'' ''api'' [''ns-1'', ''ns-2'']
     False (Some exampleMatcher)) \<noteq>
   fst (generateCacheKey ''tok'' ''joe'' [] ''get'' ''application'' ''logs'' ''api'' [''ns-2'', ''ns-1'']
     False (Some exampleMatcher))"
  by (rule generateCacheKey_namespace_order) simp_all

text \<open>
  C37: the groups are hashed without separators. Two requests that differ in their groups only have
  the same key exactly when the concatenations of the sorted groups are the same, or SHA-256
  collides. So a member of ab and a member of a and b share the cached decision, and so do a member
  of ab and c and one of a and bc, though not one of b and ca and one of bc and a, whose groups are
  sorted differently: there the keys are the same only by a collision.
\<close>

theorem generateCacheKey_group_boundary:
  "(fst (generateCacheKey t u g v r rn ag ns md matcher) = fst (generateCacheKey t u g' v r rn ag ns md matcher)
      \<longleftrightarrow> concat (sort_Strings g) = concat (sort_Strings g')
        \<or> collision (userPreimage t u g) (userPreimage t u g'))
   \<and> fst (generateCacheKey t u [''ab''] v r rn ag ns md matcher)
     = fst (generateCacheKey t u [''a'', ''b''] v r rn ag ns md matcher)
   \<and> fst (generateCacheKey t u [''ab'', ''c''] v r rn ag ns md matcher)
     = fst (generateCacheKey t u [''a'', ''bc''] v r rn ag ns md matcher)
   \<and> concat (sort_Strings [''b'', ''ca'']) \<noteq> concat (sort_Strings [''bc'', ''a''])"
  unfolding generateCacheKey_groups by (simp add: userPreimage_def sort_Strings_def)

text \<open>
  The length of a key: the two hashes contribute at most 131 characters, everything else is
  taken from the request as it is, so the key grows without bound with the user's name and the
  namespaces of the query (the test of generateCacheKey demands at most 250 characters).
\<close>

lemma length_generateCacheKey:
  "length (fst (generateCacheKey t u g v r rn ag ns md matcher)) =
     length v + length ag + length rn + length r + length u
     + sum_list (map length ns) + (length ns - 1)
     + (if md then 4 else 5) + 72
     + (case matcher of None \<Rightarrow> 7 | Some m \<Rightarrow> if Keys m = [] then 7 else 66)"
  by (simp add: fst_generateCacheKey length_join length_hashMatcher fmtBool_def split: option.split)

text \<open>
  C36: the fields of a key are not separated safely. The name of the resource and the namespaces
  come from the request and may hold commas: for every tenant r a request for the resource named
  rn in the namespace "r,n" has the same key as one for the resource named "rn,r" in the
  namespace n, and two namespaces a and b are not told from the one namespace "a:b". The decision
  cached for one request then answers the other.
\<close>

theorem generateCacheKey_field_boundary:
  "fst (generateCacheKey t u g v r rn ag [r @ '','' @ n] md matcher)
     = fst (generateCacheKey t u g v r (rn @ '','' @ r) ag [n] md matcher)
   \<and> fst (generateCacheKey t u g v r rn ag [a @ '':'' @ b] md matcher)
     = fst (generateCacheKey t u g v r rn ag [a, b] md matcher)"
  by (simp add: fst_generateCacheKey)

end
