(* ===== verification/Go_Path.thy ===== *)
theory Go_Path
  imports Go_Prelude
begin

text \<open>
  Go's package path: Clean and Join on slash-separated paths. Clean works on the elements of the
  path; the result of an empty path is a single dot.
\<close>

definition slash :: char where "slash = CHR ''/''"

definition dot :: string where "dot = ''.''"
definition dotdot :: string where "dotdot = ''..''"

text \<open>One pass over the elements; \<open>out\<close> holds those kept so far, the last one first.\<close>

fun cleanElems :: "bool \<Rightarrow> string list \<Rightarrow> string list \<Rightarrow> string list" where
  "cleanElems rooted out [] = rev out"
| "cleanElems rooted out (e # es) =
     (if e = [] \<or> e = dot then cleanElems rooted out es
      else if e = dotdot then
        (case out of
           p # ps \<Rightarrow> if p = dotdot then cleanElems rooted (dotdot # out) es else cleanElems rooted ps es
         | [] \<Rightarrow> if rooted then cleanElems rooted [] es else cleanElems rooted [dotdot] es)
      else cleanElems rooted (e # out) es)"

definition Clean :: "string \<Rightarrow> string" where
  "Clean p =
     (let rooted = (case p of c # _ \<Rightarrow> c = slash | [] \<Rightarrow> False);
          body = join [slash] (cleanElems rooted [] (split slash p))
      in if rooted then slash # body else if body = [] then dot else body)"

text \<open>path.Join: elements before the first non-empty one are dropped.\<close>

definition Join :: "string list \<Rightarrow> string" where
  "Join elem =
     (case dropWhile (\<lambda>e. e = []) elem of
        [] \<Rightarrow> []
      | es \<Rightarrow> Clean (join [slash] es))"

text \<open>An element that Clean keeps as it is.\<close>

definition plainElem :: "string \<Rightarrow> bool" where
  "plainElem e \<longleftrightarrow> e \<noteq> [] \<and> e \<noteq> dot \<and> e \<noteq> dotdot \<and> slash \<notin> set e"

lemma cleanElems_plain:
  "(\<And>e. e \<in> set es \<Longrightarrow> plainElem e) \<Longrightarrow> cleanElems rooted out es = rev out @ es"
  by (induction es arbitrary: out) (auto simp: plainElem_def)

text \<open>An absolute path of plain elements is clean already.\<close>

lemma Clean_plain:
  assumes "es \<noteq> []" "\<And>e. e \<in> set es \<Longrightarrow> plainElem e"
  shows "Clean (slash # join [slash] es) = slash # join [slash] es"
proof -
  have "split slash (slash # join [slash] es) = [] # es"
    using assms by (simp add: split_join plainElem_def)
  then show ?thesis using assms by (simp add: Clean_def cleanElems_plain)
qed

end
