(* ===== verification/Openshift_Client.thy ===== *)
theory Openshift_Client
  imports Go_Path
begin

text \<open>
  The client of the API server (internal/openshift/client.go and the interfaces it narrows in
  internal/external): access reviews, the list of a user's projects, and the loading of the
  credentials.

  Outside the repository, and so parameters: the clientsets' calls (\<open>AuthorizationV1Interface\<close> and
  \<open>ProjectInterface\<close>, the two interfaces the client calls), the constructors of the clientsets
  (\<open>clientLib\<close>), and the environment with the kubeconfig loader (\<open>configEnv\<close>). A state \<open>'s\<close> is that
  of the API server.
\<close>

section \<open>What is sent\<close>

record ResourceAttributes =
  raNamespace :: string
  raVerb :: string
  raGroup :: string
  raResource :: string
  raName :: string

record SubjectAccessReview =
  sarUser :: string
  sarGroups :: "string list"
  sarAttributes :: ResourceAttributes

record SelfSubjectAccessReview =
  ssarAttributes :: ResourceAttributes

text \<open>Create returns the review with its Status; Status.Allowed is all the client reads.\<close>

record 's AuthorizationV1Interface =
  SubjectAccessReviews_Create :: "'s \<Rightarrow> SubjectAccessReview \<Rightarrow> (go_error + bool) \<times> 's"
  SelfSubjectAccessReviews_Create :: "'s \<Rightarrow> SelfSubjectAccessReview \<Rightarrow> (go_error + bool) \<times> 's"

record Project =
  projectName :: string

record 's ProjectInterface =
  Projects_List :: "'s \<Rightarrow> (go_error + Project list) \<times> 's"

section \<open>The client\<close>

text \<open>The interface Client, as the authorizer uses it.\<close>

record 's Client =
  AccessReview :: "'s \<Rightarrow> string \<Rightarrow> string list \<Rightarrow> string \<Rightarrow> string \<Rightarrow> string \<Rightarrow> string \<Rightarrow> string
    \<Rightarrow> (go_error + bool) \<times> 's"
  ListNamespaces :: "'s \<Rightarrow> (go_error + string list) \<times> 's"

record 's client =
  k8sClient :: "'s AuthorizationV1Interface"
  projectClient :: "'s ProjectInterface"
  ssar :: bool

definition subjectAccessReview ::
  "'s client \<Rightarrow> 's \<Rightarrow> string \<Rightarrow> string list \<Rightarrow> string \<Rightarrow> string \<Rightarrow> string \<Rightarrow> string \<Rightarrow> string
   \<Rightarrow> (go_error + bool) \<times> 's" where
  "subjectAccessReview c s user groups verb resource resourceName apiGroup namespace =
     (let review = \<lparr>sarUser = user, sarGroups = groups,
            sarAttributes = \<lparr>raNamespace = namespace, raVerb = verb, raGroup = apiGroup,
              raResource = resource, raName = resourceName\<rparr>\<rparr>;
          (res, s') = SubjectAccessReviews_Create (k8sClient c) s review
      in (case res of
            Inl err \<Rightarrow> (Inl (wrapf ''failed to create subject access review'' err), s')
          | Inr allowed \<Rightarrow> (Inr allowed, s')))"

definition selfSubjectAccessReview ::
  "'s client \<Rightarrow> 's \<Rightarrow> string \<Rightarrow> string \<Rightarrow> string \<Rightarrow> string \<Rightarrow> string
   \<Rightarrow> (go_error + bool) \<times> 's" where
  "selfSubjectAccessReview c s verb resource resourceName apiGroup namespace =
     (let review = \<lparr>ssarAttributes = \<lparr>raNamespace = namespace, raVerb = verb, raGroup = apiGroup,
              raResource = resource, raName = resourceName\<rparr>\<rparr>;
          (res, s') = SelfSubjectAccessReviews_Create (k8sClient c) s review
      in (case res of
            Inl err \<Rightarrow> (Inl (wrapf ''failed to create self subject access review'' err), s')
          | Inr allowed \<Rightarrow> (Inr allowed, s')))"

definition client_AccessReview ::
  "'s client \<Rightarrow> 's \<Rightarrow> string \<Rightarrow> string list \<Rightarrow> string \<Rightarrow> string \<Rightarrow> string \<Rightarrow> string \<Rightarrow> string
   \<Rightarrow> (go_error + bool) \<times> 's" where
  "client_AccessReview c s user groups verb resource resourceName apiGroup namespace =
     (if ssar c then selfSubjectAccessReview c s verb resource resourceName apiGroup namespace
      else subjectAccessReview c s user groups verb resource resourceName apiGroup namespace)"

fun projectNames :: "string list \<Rightarrow> Project list \<Rightarrow> string list" where
  "projectNames namespaces [] = namespaces"
| "projectNames namespaces (ns # items) = projectNames (namespaces @ [projectName ns]) items"

definition client_ListNamespaces :: "'s client \<Rightarrow> 's \<Rightarrow> (go_error + string list) \<times> 's" where
  "client_ListNamespaces c s =
     (let (projects, s') = Projects_List (projectClient c) s
      in (case projects of
            Inl err \<Rightarrow> (Inl (wrapf ''failed to list projects'' err), s')
          | Inr items \<Rightarrow> (Inr (projectNames [] items), s')))"

definition asClient :: "'s client \<Rightarrow> 's Client" where
  "asClient c = \<lparr>AccessReview = client_AccessReview c, ListNamespaces = client_ListNamespaces c\<rparr>"

section \<open>Credentials\<close>

text \<open>
  rest.Config: the two fields the code assigns; every other field (host, certificates, password,
  impersonation) is in the record's extension \<open>'m\<close>, opaque to the code.
\<close>

record 'w rest_Config =
  BearerToken :: string
  WrapTransport :: "'w option"

record LoadingRules =
  ExplicitPath :: string
  Precedence :: "string list"

record ('w, 'm) configEnv =
  os_Getenv :: "string \<Rightarrow> string"
  os_LookupEnv :: "string \<Rightarrow> string option"
  user_Current_HomeDir :: "go_error + string"
  InClusterConfig :: "go_error + ('w, 'm) rest_Config_scheme"
  NewDefaultClientConfigLoadingRules :: LoadingRules
  ClientConfig :: "LoadingRules \<Rightarrow> go_error + ('w, 'm) rest_Config_scheme"
  RecommendedConfigPathEnvVar :: string
  RecommendedHomeDir :: string
  RecommendedFileName :: string

definition loadConfig ::
  "('w, 'm) configEnv \<Rightarrow> LoadingRules \<Rightarrow> go_error + ('w, 'm) rest_Config_scheme" where
  "loadConfig env loader = ClientConfig env loader"

definition getConfig ::
  "('w, 'm) configEnv \<Rightarrow> string \<Rightarrow> go_error + ('w, 'm) rest_Config_scheme" where
  "getConfig env kubeconfig =
     (if 0 < length kubeconfig then loadConfig env \<lparr>ExplicitPath = kubeconfig, Precedence = []\<rparr>
      else
        (let kubeconfigPath = os_Getenv env (RecommendedConfigPathEnvVar env)
         in if length kubeconfigPath = 0 then InClusterConfig env
            else
              (let loadingRules = NewDefaultClientConfigLoadingRules env
               in (case os_LookupEnv env ''HOME'' of
                     Some home \<Rightarrow> loadConfig env loadingRules
                   | None \<Rightarrow>
                       (case user_Current_HomeDir env of
                          Inl err \<Rightarrow> Inl (wrapf ''could not get current user'' err)
                        | Inr homeDir \<Rightarrow>
                            (let p = Join [homeDir, RecommendedHomeDir env, RecommendedFileName env]
                             in loadConfig env
                                  (loadingRules\<lparr>Precedence := Precedence loadingRules @ [p]\<rparr>)))))))"

record ('w, 'm, 's) clientLib =
  AnonymousClientConfig :: "('w, 'm) rest_Config_scheme \<Rightarrow> ('w, 'm) rest_Config_scheme"
  kubernetes_NewForConfig :: "('w, 'm) rest_Config_scheme \<Rightarrow> go_error + 's AuthorizationV1Interface"
  projectv1_NewForConfig :: "('w, 'm) rest_Config_scheme \<Rightarrow> go_error + 's ProjectInterface"

text \<open>The configurations of the two clientsets, as NewClient prepares them.\<close>

definition reviewConfig ::
  "('w, 'm, 's) clientLib \<Rightarrow> 'w \<Rightarrow> string \<Rightarrow> bool \<Rightarrow> ('w, 'm) rest_Config_scheme
   \<Rightarrow> ('w, 'm) rest_Config_scheme" where
  "reviewConfig lib wt token ssar' cfg =
     (let cfg = (if ssar' then (AnonymousClientConfig lib cfg)\<lparr>BearerToken := token\<rparr> else cfg)
      in cfg\<lparr>WrapTransport := Some wt\<rparr>)"

definition projectConfig ::
  "('w, 'm, 's) clientLib \<Rightarrow> 'w \<Rightarrow> string \<Rightarrow> ('w, 'm) rest_Config_scheme
   \<Rightarrow> ('w, 'm) rest_Config_scheme" where
  "projectConfig lib wt token cfg =
     (AnonymousClientConfig lib cfg)\<lparr>BearerToken := token, WrapTransport := Some wt\<rparr>"

definition NewClient ::
  "('w, 'm) configEnv \<Rightarrow> ('w, 'm, 's) clientLib \<Rightarrow> 'w \<Rightarrow> string \<Rightarrow> string \<Rightarrow> bool
   \<Rightarrow> go_error + 's client" where
  "NewClient env lib wt kubeconfigPath token ssar' =
     (case getConfig env kubeconfigPath of
        Inl err \<Rightarrow> Inl err
      | Inr cfg0 \<Rightarrow>
          (let cfg = reviewConfig lib wt token ssar' cfg0
           in (case kubernetes_NewForConfig lib cfg of
                 Inl err \<Rightarrow> Inl (wrapf ''failed to create k8s clientset'' err)
               | Inr clientset \<Rightarrow>
                   (let cfg' = projectConfig lib wt token cfg
                    in (case projectv1_NewForConfig lib cfg' of
                          Inl err \<Rightarrow> Inl (wrapf ''failed to create ocp project clientset'' err)
                        | Inr projects \<Rightarrow>
                            Inr \<lparr>k8sClient = clientset, projectClient = projects, ssar = ssar'\<rparr>)))))"

section \<open>The interface the authorizer relies on\<close>

text \<open>
  A client is stable in a state when its calls succeed and answer by a fixed policy: \<open>grants\<close> for
  the reviews, \<open>visible\<close> for the list of namespaces. The calls may change the server's state in
  other ways (audit logs, rate limits).
\<close>

type_synonym grants =
  "string \<Rightarrow> string list \<Rightarrow> string \<Rightarrow> string \<Rightarrow> string \<Rightarrow> string \<Rightarrow> string \<Rightarrow> bool"

locale stable_client =
  fixes cl :: "'s Client"
    and ready :: "'s \<Rightarrow> bool"
    and grants :: "'s \<Rightarrow> grants"
    and visible :: "'s \<Rightarrow> string list"
  assumes review: "ready s \<Longrightarrow> AccessReview cl s user groups verb res nm grp ns = (r, s') \<Longrightarrow>
      r = Inr (grants s user groups verb res nm grp ns)
      \<and> ready s' \<and> grants s' = grants s \<and> visible s' = visible s"
    and namespaces: "ready s \<Longrightarrow> ListNamespaces cl s = (x, s') \<Longrightarrow>
      x = Inr (visible s) \<and> ready s' \<and> grants s' = grants s \<and> visible s' = visible s"

text \<open>
  The API server as the client needs it: in the states of \<open>up\<close> it answers reviews by the policies
  \<open>rbac\<close> (for the subject named) and \<open>selfRbac\<close> (for the bearer of the token) and lists the
  projects \<open>projects\<close>; answering does not change them.
\<close>

record 's apiServer =
  up :: "'s \<Rightarrow> bool"
  rbac :: "'s \<Rightarrow> SubjectAccessReview \<Rightarrow> bool"
  selfRbac :: "'s \<Rightarrow> SelfSubjectAccessReview \<Rightarrow> bool"
  projects :: "'s \<Rightarrow> Project list"

definition samePolicy :: "'s apiServer \<Rightarrow> 's \<Rightarrow> 's \<Rightarrow> bool" where
  "samePolicy api s s' \<longleftrightarrow> up api s' \<and> rbac api s' = rbac api s \<and> selfRbac api s' = selfRbac api s
     \<and> projects api s' = projects api s"

definition apiContract :: "'s apiServer \<Rightarrow> 's client \<Rightarrow> bool" where
  "apiContract api c \<longleftrightarrow>
     (\<forall>s rv. up api s \<longrightarrow>
        fst (SubjectAccessReviews_Create (k8sClient c) s rv) = Inr (rbac api s rv)
        \<and> samePolicy api s (snd (SubjectAccessReviews_Create (k8sClient c) s rv))) \<and>
     (\<forall>s rv. up api s \<longrightarrow>
        fst (SelfSubjectAccessReviews_Create (k8sClient c) s rv) = Inr (selfRbac api s rv)
        \<and> samePolicy api s (snd (SelfSubjectAccessReviews_Create (k8sClient c) s rv))) \<and>
     (\<forall>s. up api s \<longrightarrow>
        fst (Projects_List (projectClient c) s) = Inr (projects api s)
        \<and> samePolicy api s (snd (Projects_List (projectClient c) s)))"

text \<open>What the two kinds of review ask; a self review does not name the subject.\<close>

definition clientGrants :: "'s apiServer \<Rightarrow> 's client \<Rightarrow> 's \<Rightarrow> grants" where
  "clientGrants api c s user groups verb res nm grp ns =
     (let attrs = \<lparr>raNamespace = ns, raVerb = verb, raGroup = grp, raResource = res, raName = nm\<rparr>
      in if ssar c then selfRbac api s \<lparr>ssarAttributes = attrs\<rparr>
         else rbac api s \<lparr>sarUser = user, sarGroups = groups, sarAttributes = attrs\<rparr>)"

lemma projectNames_eq: "projectNames namespaces items = namespaces @ map projectName items"
  by (induction namespaces items rule: projectNames.induct) simp_all

lemma apiContract_sar:
  "apiContract api c \<Longrightarrow> up api s \<Longrightarrow> SubjectAccessReviews_Create (k8sClient c) s rv = (r, s') \<Longrightarrow>
   r = Inr (rbac api s rv) \<and> samePolicy api s s'"
  unfolding apiContract_def by (metis fst_conv snd_conv)

lemma apiContract_ssar:
  "apiContract api c \<Longrightarrow> up api s \<Longrightarrow> SelfSubjectAccessReviews_Create (k8sClient c) s rv = (r, s') \<Longrightarrow>
   r = Inr (selfRbac api s rv) \<and> samePolicy api s s'"
  unfolding apiContract_def by (metis fst_conv snd_conv)

lemma apiContract_list:
  "apiContract api c \<Longrightarrow> up api s \<Longrightarrow> Projects_List (projectClient c) s = (ps, s') \<Longrightarrow>
   ps = Inr (projects api s) \<and> samePolicy api s s'"
  unfolding apiContract_def by (metis fst_conv snd_conv)

lemma clientGrants_samePolicy: "samePolicy api s s' \<Longrightarrow> clientGrants api c s' = clientGrants api c s"
  by (simp add: samePolicy_def clientGrants_def fun_eq_iff)

lemma samePolicy_keeps:
  "samePolicy api s s' \<Longrightarrow> up api s' \<and> clientGrants api c s' = clientGrants api c s
   \<and> map projectName (projects api s') = map projectName (projects api s)"
  by (simp add: samePolicy_def clientGrants_def fun_eq_iff)

lemma client_AccessReview_stable:
  assumes "apiContract api c" "up api s"
    and "client_AccessReview c s user groups verb res nm grp ns = (r, s')"
  shows "r = Inr (clientGrants api c s user groups verb res nm grp ns) \<and> samePolicy api s s'"
proof -
  define attrs where
    "attrs = \<lparr>raNamespace = ns, raVerb = verb, raGroup = grp, raResource = res, raName = nm\<rparr>"
  obtain r1 s1 where ssar: "SelfSubjectAccessReviews_Create (k8sClient c) s \<lparr>ssarAttributes = attrs\<rparr> = (r1, s1)"
    by fastforce
  obtain r2 s2 where sar: "SubjectAccessReviews_Create (k8sClient c) s
      \<lparr>sarUser = user, sarGroups = groups, sarAttributes = attrs\<rparr> = (r2, s2)" by fastforce
  show ?thesis
    using assms(3) ssar sar apiContract_ssar [OF assms(1,2) ssar] apiContract_sar [OF assms(1,2) sar]
    by (auto simp: client_AccessReview_def selfSubjectAccessReview_def subjectAccessReview_def
        clientGrants_def attrs_def split: if_splits)
qed

lemma client_ListNamespaces_stable:
  assumes "apiContract api c" "up api s" "client_ListNamespaces c s = (x, s')"
  shows "x = Inr (map projectName (projects api s)) \<and> samePolicy api s s'"
proof -
  obtain ps s1 where l: "Projects_List (projectClient c) s = (ps, s1)" by fastforce
  show ?thesis
    using assms(3) l apiContract_list [OF assms(1,2) l]
    by (auto simp: client_ListNamespaces_def projectNames_eq)
qed

interpretation openshiftClient: stable_client "asClient c"
  "\<lambda>s. apiContract api c \<and> up api s" "clientGrants api c"
  "\<lambda>s. map projectName (projects api s)" for c api
proof unfold_locales
  fix s user groups verb res nm grp ns r s'
  assume "apiContract api c \<and> up api s"
    "AccessReview (asClient c) s user groups verb res nm grp ns = (r, s')"
  then show "r = Inr (clientGrants api c s user groups verb res nm grp ns) \<and>
      (apiContract api c \<and> up api s') \<and> clientGrants api c s' = clientGrants api c s \<and>
      map projectName (projects api s') = map projectName (projects api s)"
    using client_AccessReview_stable [of api c s user groups verb res nm grp ns r s']
      samePolicy_keeps [of api s s' c] by (simp add: asClient_def)
next
  fix s x s'
  assume "apiContract api c \<and> up api s" "ListNamespaces (asClient c) s = (x, s')"
  then show "x = Inr (map projectName (projects api s)) \<and>
      (apiContract api c \<and> up api s') \<and> clientGrants api c s' = clientGrants api c s \<and>
      map projectName (projects api s') = map projectName (projects api s)"
    using client_ListNamespaces_stable [of api c s x s'] samePolicy_keeps [of api s s' c]
    by (simp add: asClient_def)
qed

section \<open>Properties\<close>

text \<open>
  The documented behaviour of rest.AnonymousClientConfig: the copy keeps the address of the
  server and nothing of the credentials or the transport wrapper. \<open>public\<close> reads the part kept.
\<close>

definition anonContract ::
  "(('w, 'm) rest_Config_scheme \<Rightarrow> ('w, 'm) rest_Config_scheme) \<Rightarrow> (('w, 'm) rest_Config_scheme \<Rightarrow> 'p)
   \<Rightarrow> bool" where
  "anonContract anon public \<longleftrightarrow>
     (\<forall>cfg cfg'. public cfg = public cfg' \<longrightarrow> anon cfg = anon cfg') \<and>
     (\<forall>cfg t. public (cfg\<lparr>BearerToken := t\<rparr>) = public cfg) \<and>
     (\<forall>cfg w. public (cfg\<lparr>WrapTransport := w\<rparr>) = public cfg) \<and>
     (\<forall>cfg. public (anon cfg) = public cfg)"

lemma anon_cong:
  "anonContract anon public \<Longrightarrow> public cfg = public cfg' \<Longrightarrow> anon cfg = anon cfg'"
  unfolding anonContract_def by blast

lemma anon_public:
  assumes "anonContract anon public"
  shows "public (cfg\<lparr>BearerToken := t\<rparr>) = public cfg" "public (cfg\<lparr>WrapTransport := w\<rparr>) = public cfg"
    "public (anon cfg) = public cfg"
  using assms unfolding anonContract_def by blast+

lemma reviewConfig_public:
  assumes "anonContract (AnonymousClientConfig lib) public"
  shows "public (reviewConfig lib wt token b cfg) = public cfg"
  by (simp add: reviewConfig_def Let_def anon_public [OF assms])

lemma projectConfig_public:
  "anonContract (AnonymousClientConfig lib) public \<Longrightarrow> public cfg = public cfg' \<Longrightarrow>
   projectConfig lib wt token cfg = projectConfig lib wt token cfg'"
  by (drule (1) anon_cong) (simp add: projectConfig_def)

lemma NewClient_Inr:
  "NewClient env lib wt token path b = Inr c \<longleftrightarrow>
   (\<exists>cfg k p. getConfig env token = Inr cfg
      \<and> kubernetes_NewForConfig lib (reviewConfig lib wt path b cfg) = Inr k
      \<and> projectv1_NewForConfig lib (projectConfig lib wt path (reviewConfig lib wt path b cfg)) = Inr p
      \<and> c = \<lparr>k8sClient = k, projectClient = p, ssar = b\<rparr>)"
  by (auto simp: NewClient_def Let_def split: sum.splits)

text \<open>
  C22: the program's own credentials never reach the calls made in a user's name. Take two
  environments whose loaded configurations may differ in their credentials but agree on the rest.
  The project clientsets of the two clients are the same, so the list of namespaces depends on the
  user's token only; and with self reviews the reviewing clientsets are the same too.
\<close>

theorem NewClient_isolates_credentials:
  assumes "anonContract (AnonymousClientConfig lib) public"
    and "getConfig env path = Inr cfg" "getConfig env' path = Inr cfg'" "public cfg = public cfg'"
    and "NewClient env lib wt path token b = Inr c" "NewClient env' lib wt path token b = Inr c'"
  shows "projectClient c = projectClient c' \<and> (b \<longrightarrow> c = c')"
proof -
  have "projectConfig lib wt token (reviewConfig lib wt token b cfg)
      = projectConfig lib wt token (reviewConfig lib wt token b cfg')"
    using assms(1,4) by (intro projectConfig_public [of lib public]) (auto simp: reviewConfig_public)
  moreover have "reviewConfig lib wt token True cfg = reviewConfig lib wt token True cfg'"
    using anon_cong [OF assms(1,4)] by (simp add: reviewConfig_def)
  ultimately show ?thesis
    using assms(2,3,5,6) by (cases b) (auto simp: NewClient_Inr)
qed

text \<open>A library and two environments with different tokens of the program.\<close>

definition exampleAnon :: "(unit, string) rest_Config_scheme \<Rightarrow> (unit, string) rest_Config_scheme" where
  "exampleAnon cfg = cfg\<lparr>BearerToken := [], WrapTransport := None\<rparr>"

definition exampleLib :: "(unit, string, unit) clientLib" where
  "exampleLib = \<lparr>AnonymousClientConfig = exampleAnon,
     kubernetes_NewForConfig = (\<lambda>cfg. Inr
       \<lparr>SubjectAccessReviews_Create = (\<lambda>s rv. (Inr (BearerToken cfg = ''admin''), s)),
        SelfSubjectAccessReviews_Create = (\<lambda>s rv. (Inr (BearerToken cfg = ''admin''), s))\<rparr>),
     projectv1_NewForConfig = (\<lambda>cfg. Inr
       \<lparr>Projects_List = (\<lambda>s. (Inr [\<lparr>projectName = BearerToken cfg\<rparr>], s))\<rparr>)\<rparr>"

definition exampleEnv :: "string \<Rightarrow> (unit, string) configEnv" where
  "exampleEnv token = \<lparr>os_Getenv = (\<lambda>_. []), os_LookupEnv = (\<lambda>_. None),
     user_Current_HomeDir = Inr ''/root'',
     InClusterConfig = Inr \<lparr>BearerToken = token, WrapTransport = None, \<dots> = ''https://host''\<rparr>,
     NewDefaultClientConfigLoadingRules = \<lparr>ExplicitPath = [], Precedence = []\<rparr>,
     ClientConfig = (\<lambda>_. Inl (Errorf ''no such file'')),
     RecommendedConfigPathEnvVar = ''KUBECONFIG'', RecommendedHomeDir = ''.kube'',
     RecommendedFileName = ''config''\<rparr>"

lemma anonContract_example: "anonContract exampleAnon rest_Config.more"
  by (auto simp: anonContract_def exampleAnon_def)

theorem NewClient_isolates_credentials_witness:
  "\<exists>c c'. NewClient (exampleEnv ''service'') exampleLib () [] ''user'' True = Inr c
     \<and> NewClient (exampleEnv ''other'') exampleLib () [] ''user'' True = Inr c' \<and> c = c'"
proof -
  have get: "getConfig (exampleEnv t) [] =
      Inr \<lparr>BearerToken = t, WrapTransport = None, \<dots> = ''https://host''\<rparr>" for t
    by (simp add: getConfig_def exampleEnv_def)
  have anon: "anonContract (AnonymousClientConfig exampleLib) rest_Config.more"
    using anonContract_example by (simp add: exampleLib_def)
  obtain c where c: "NewClient (exampleEnv ''service'') exampleLib () [] ''user'' True = Inr c"
    by (simp add: NewClient_Inr get) (simp add: exampleLib_def)
  obtain c' where c': "NewClient (exampleEnv ''other'') exampleLib () [] ''user'' True = Inr c'"
    by (simp add: NewClient_Inr get) (simp add: exampleLib_def)
  have "c = c'"
    using NewClient_isolates_credentials [OF anon get get _ c c'] by simp
  with c c' show ?thesis by blast
qed

text \<open>
  Without a --kubeconfig flag and with KUBECONFIG empty the program takes the in-cluster
  credentials, whatever HOME, the user database and the kubeconfig files hold: two environments
  that agree on KUBECONFIG and the in-cluster credentials load the same configuration. (The
  comment on NewClient says that a kubeconfig under $HOME/.kube is used.)
\<close>

lemma getConfig_ignores_home:
  assumes "os_Getenv env (RecommendedConfigPathEnvVar env) = []"
    and "os_Getenv env' (RecommendedConfigPathEnvVar env') = []"
    and "InClusterConfig env = InClusterConfig env'"
  shows "getConfig env [] = getConfig env' []"
  using assms by (simp add: getConfig_def)

lemma getConfig_ignores_home_example:
  "getConfig (exampleEnv ''service'') [] =
   getConfig (exampleEnv ''service''\<lparr>os_LookupEnv := (\<lambda>_. Some ''/home/u''),
     ClientConfig := (\<lambda>_. Inr \<lparr>BearerToken = ''file'', WrapTransport = None, \<dots> = ''https://host''\<rparr>)\<rparr>) []"
  by (rule getConfig_ignores_home) (simp_all add: exampleEnv_def)

end
