(* ===== verification/Authorizer.thy ===== *)
theory Authorizer
  imports Cache Cache_Key Openshift_Client
begin

text \<open>
  The authorizer (internal/authorizer/authorizer.go): Authorize looks a request up in the cache,
  asks the API server otherwise (authorizeInner, authorizeClusterWide) and stores the answer.

  The state is a pair: that of the cache and that of the API server. \<open>nm\<close> is labels.NewMatcher.
  The matcher is the non-nil pointer handler.New passes. The lines that only log are left out;
  the one log line that has an error as its cause, on a failed Set, drops the error.
\<close>

section \<open>The code\<close>

definition GetVerb :: string where "GetVerb = ''get''"
definition CreateVerb :: string where "CreateVerb = ''create''"

definition errUnexpectedVerb :: go_error where
  "errUnexpectedVerb = Errorf ''unexpected verb''"

definition StatusBadRequest :: nat where "StatusBadRequest = 400"
definition StatusUnauthorized :: nat where "StatusUnauthorized = 401"
definition StatusInternalServerError :: nat where "StatusInternalServerError = 500"

record ('c, 'a) Authorizer =
  client :: "'a Client"
  cache :: "'c Cacher"
  matcher :: Matcher

definition New :: "'a Client \<Rightarrow> 'c Cacher \<Rightarrow> Matcher \<Rightarrow> ('c, 'a) Authorizer" where
  "New c cc m = \<lparr>client = c, cache = cc, matcher = m\<rparr>"

text \<open>The map of the listed namespaces and the loop that filters the requested ones.\<close>

fun filterListed :: "(string \<rightharpoonup> bool) \<Rightarrow> string list \<Rightarrow> string list \<Rightarrow> string list" where
  "filterListed nsMap filtered [] = filtered"
| "filterListed nsMap filtered (ns # nss) =
     filterListed nsMap (if nsMap ns = Some True then filtered @ [ns] else filtered) nss"

definition authorizeClusterWide ::
  "newMatcher \<Rightarrow> ('c, 'a) Authorizer \<Rightarrow> 'a \<Rightarrow> string list \<Rightarrow> (go_error + DataResponseV1) \<times> 'a" where
  "authorizeClusterWide nm a s namespaces =
     (if IsEmpty (matcher a) then (Inr (minimalDataResponseV1 True), s)
      else
        (case ListNamespaces (client a) s of
           (Inl err, s') \<Rightarrow>
             (Inl (StatusCodeError (wrapf ''failed to access api server'' err) StatusUnauthorized), s')
         | (Inr nsList, s') \<Rightarrow>
             if length namespaces = 0 then (newDataResponseV1 nm nsList (matcher a), s')
             else
               (let nsMap = foldl (\<lambda>m ns. m(ns \<mapsto> True)) Map.empty nsList;
                    filtered = filterListed nsMap [] namespaces
                in (newDataResponseV1 nm filtered (matcher a), s'))))"

text \<open>The loop of the namespaced reviews.\<close>

fun reviewNamespaces ::
  "('s \<Rightarrow> string \<Rightarrow> (go_error + bool) \<times> 's) \<Rightarrow> 's \<Rightarrow> string list \<Rightarrow> string list
   \<Rightarrow> (go_error + string list) \<times> 's" where
  "reviewNamespaces review s allowed [] = (Inr allowed, s)"
| "reviewNamespaces review s allowed (ns # nss) =
     (case review s ns of
        (Inl err, s') \<Rightarrow>
          (Inl (StatusCodeError (wrapf ''namespaced SAR failed'' err) StatusUnauthorized), s')
      | (Inr nsAllowed, s') \<Rightarrow>
          reviewNamespaces review s' (if nsAllowed then allowed @ [ns] else allowed) nss)"

text \<open>The part of authorizeInner after the list for a metadata request.\<close>

definition authorizeNamespaced ::
  "newMatcher \<Rightarrow> ('c, 'a) Authorizer \<Rightarrow> 'a \<Rightarrow> string \<Rightarrow> string list \<Rightarrow> string \<Rightarrow> string \<Rightarrow> string
   \<Rightarrow> string \<Rightarrow> string list \<Rightarrow> (go_error + DataResponseV1) \<times> 'a" where
  "authorizeNamespaced nm a s user groups verb resource resourceName apiGroup namespaces =
     (case reviewNamespaces
             (\<lambda>s ns. AccessReview (client a) s user groups verb resource resourceName apiGroup ns)
             s [] namespaces of
        (Inl err, s') \<Rightarrow> (Inl err, s')
      | (Inr allowed, s') \<Rightarrow>
          if length allowed = 0 then (Inr (minimalDataResponseV1 False), s')
          else
            (case newDataResponseV1 nm allowed (matcher a) of
               Inl err \<Rightarrow>
                 (Inl (StatusCodeError (wrapf ''failed to create auth response'' err)
                    StatusInternalServerError), s')
             | Inr res \<Rightarrow> (Inr res, s')))"

definition authorizeInner ::
  "newMatcher \<Rightarrow> ('c, 'a) Authorizer \<Rightarrow> 'a \<Rightarrow> string \<Rightarrow> string list \<Rightarrow> string \<Rightarrow> string \<Rightarrow> string
   \<Rightarrow> string \<Rightarrow> string list \<Rightarrow> bool \<Rightarrow> (go_error + DataResponseV1) \<times> 'a" where
  "authorizeInner nm a s user groups verb resource resourceName apiGroup namespaces metadataOnly =
     (case AccessReview (client a) s user groups verb resource resourceName apiGroup [] of
        (Inl err, s') \<Rightarrow>
          (Inl (StatusCodeError (wrapf ''cluster-wide SAR failed'' err) StatusUnauthorized), s')
      | (Inr clusterAllow, s') \<Rightarrow>
          if verb = CreateVerb then (Inr (minimalDataResponseV1 clusterAllow), s')
          else if clusterAllow then authorizeClusterWide nm a s' namespaces
          else if metadataOnly \<and> length namespaces = 0 then
            (case ListNamespaces (client a) s' of
               (Inl err, s'') \<Rightarrow>
                 (Inl (StatusCodeError (wrapf ''failed to access api server'' err)
                    StatusUnauthorized), s'')
             | (Inr nsList, s'') \<Rightarrow>
                 if length nsList = 0 then (Inr (minimalDataResponseV1 False), s'')
                 else authorizeNamespaced nm a s'' user groups verb resource resourceName apiGroup
                        nsList)
          else authorizeNamespaced nm a s' user groups verb resource resourceName apiGroup
                 namespaces)"

definition Authorize ::
  "newMatcher \<Rightarrow> ('c, 'a) Authorizer \<Rightarrow> 'c \<times> 'a \<Rightarrow> string \<Rightarrow> string \<Rightarrow> string list \<Rightarrow> string
   \<Rightarrow> string \<Rightarrow> string \<Rightarrow> string \<Rightarrow> string list \<Rightarrow> bool
   \<Rightarrow> (go_error + DataResponseV1) \<times> 'c \<times> 'a" where
  "Authorize nm a st token user groups verb resource resourceName apiGroup namespaces metadataOnly =
     (let (c, s) = st
      in if verb \<noteq> CreateVerb \<and> verb \<noteq> GetVerb then
           (Inl (StatusCodeError (Errorf (Error errUnexpectedVerb @ '': '' @ verb)) StatusBadRequest), c, s)
         else
           (let (cacheKey, groups') = generateCacheKey token user groups verb resource resourceName
                  apiGroup namespaces metadataOnly (Some (matcher a))
            in (case cacheGet (cache a) c cacheKey of
                  (Inl err, c') \<Rightarrow>
                    (Inl (StatusCodeError
                       (wrapf ''failed to fetch authorization response from cache'' err)
                       StatusInternalServerError), c', s)
                | (Inr (res, ok), c') \<Rightarrow>
                    if ok then (Inr res, c', s)
                    else
                      (case authorizeInner nm a s user groups' verb resource resourceName apiGroup
                              namespaces metadataOnly of
                         (Inl err, s') \<Rightarrow> (Inl err, c', s')
                       | (Inr res', s') \<Rightarrow>
                           (Inr res', snd (cacheSet (cache a) c' cacheKey res'), s')))))"

end
