(* ===== verification/Authorizer_Spec.thy ===== *)
theory Authorizer_Spec
  imports Authorizer
begin

text \<open>
  What the authorizer promises. \<open>decide\<close> is the policy as one expression over the answers of the
  API server; authorizeInner refines it. \<open>logged\<close> records the calls of a client, and every grant is
  traced back to an answer of the same request. The last part is Authorize with its cache.
\<close>

section \<open>The policy\<close>

definition restrict :: "Matcher \<Rightarrow> string list \<Rightarrow> decision" where
  "restrict m ns = (if Keys m = [] \<and> ns \<noteq> [] then AllowAll else Restrict (Keys m) (MatcherOp m) ns)"

definition decide ::
  "(string \<Rightarrow> bool) \<Rightarrow> string list \<Rightarrow> Matcher \<Rightarrow> string \<Rightarrow> string list \<Rightarrow> bool \<Rightarrow> decision" where
  "decide grant visible m verb requested metadataOnly =
     (if verb = CreateVerb then (if grant [] then AllowAll else Deny)
      else if grant [] then
        (if Keys m = [] then AllowAll
         else restrict m (if requested = [] then visible else filter (\<lambda>n. n \<in> set visible) requested))
      else
        (let candidates = (if metadataOnly \<and> requested = [] then visible else requested);
             allowed = filter grant candidates
         in if allowed = [] then Deny else restrict m allowed))"

text \<open>A response for a decision, or an error because a value is no regular expression.\<close>

definition answers :: "newMatcher \<Rightarrow> decision \<Rightarrow> go_error + DataResponseV1 \<Rightarrow> bool" where
  "answers nm d r \<longleftrightarrow>
     (case r of
        Inr res \<Rightarrow> res = encodeDecision d
      | Inl err \<Rightarrow> (case d of
            Restrict keys op ns \<Rightarrow> \<exists>k e. k \<in> set keys \<and> nm MatchRegexp k (join ''|'' ns) = Inl e
          | _ \<Rightarrow> False))"

section \<open>The pieces of authorizeInner\<close>

lemma filterListed_eq: "filterListed nsMap acc nss = acc @ filter (\<lambda>n. nsMap n = Some True) nss"
  by (induction nsMap acc nss rule: filterListed.induct) simp_all

lemma listedMap: "foldl (\<lambda>m ns. m(ns \<mapsto> True)) m0 l n = Some True \<longleftrightarrow> n \<in> set l \<or> m0 n = Some True"
  by (induction l arbitrary: m0) auto

lemma filterListed_map:
  "filterListed (foldl (\<lambda>m ns. m(ns \<mapsto> True)) Map.empty l) [] nss = filter (\<lambda>n. n \<in> set l) nss"
  by (simp add: filterListed_eq listedMap)

lemma newMatchers_failure:
  "newMatchers nm v keys ms = Inl err \<Longrightarrow> \<exists>k e. k \<in> set keys \<and> nm MatchRegexp k v = Inl e"
  by (induction nm v keys ms rule: newMatchers.induct) (auto split: sum.splits)

lemma newDataResponseV1_answers:
  assumes "newMatcherContract nm"
  shows "answers nm (restrict m ns) (newDataResponseV1 nm ns m)"
proof (cases "newDataResponseV1 nm ns m")
  case (Inr r)
  with newDataResponseV1_decision [OF assms Inr] show ?thesis
    by (simp add: answers_def restrict_def)
next
  case (Inl err)
  then have "\<not> (Keys m = [] \<and> ns \<noteq> [])" "\<exists>e. newMatchers nm (join ''|'' ns) (Keys m) [] = Inl e"
    by (auto simp: newDataResponseV1_def IsEmpty_iff Marshal_def Let_def split: if_splits sum.splits)
  then obtain k e where "k \<in> set (Keys m)" "nm MatchRegexp k (join ''|'' ns) = Inl e"
    using newMatchers_failure by blast
  with Inl show ?thesis by (auto simp: answers_def restrict_def)
qed

lemma answers_StatusCodeError:
  "answers nm d (Inl err) \<Longrightarrow> answers nm d (Inl err')"
  by (simp add: answers_def)

lemma answers_minimal [simp]:
  "answers nm AllowAll (Inr (minimalDataResponseV1 True))"
  "answers nm Deny (Inr (minimalDataResponseV1 False))"
  by (simp_all add: answers_def)

section \<open>Refinement for a client with a fixed policy\<close>

context stable_client begin

lemma reviewNamespaces_stable:
  "ready s \<Longrightarrow>
   reviewNamespaces (\<lambda>s ns. AccessReview cl s user groups verb res nm grp ns) s acc nss = (x, s') \<Longrightarrow>
   x = Inr (acc @ filter (grants s user groups verb res nm grp) nss)
   \<and> ready s' \<and> grants s' = grants s \<and> visible s' = visible s"
proof (induction nss arbitrary: s acc)
  case (Cons n nss)
  obtain r s1 where r: "AccessReview cl s user groups verb res nm grp n = (r, s1)" by fastforce
  from review [OF Cons.prems(1) r] Cons.prems(2) r Cons.IH [of s1 acc] Cons.IH [of s1 "acc @ [n]"] show ?case
    by (auto split: if_splits)
qed simp

lemma authorizeNamespaced_stable:
  assumes "newMatcherContract nmf" "ready s" "client a = cl"
    and "authorizeNamespaced nmf a s user groups verb res nm grp nss = (r, s')"
  shows "(let allowed = filter (grants s user groups verb res nm grp) nss
          in answers nmf (if allowed = [] then Deny else restrict (matcher a) allowed) r)
    \<and> ready s' \<and> grants s' = grants s \<and> visible s' = visible s"
proof -
  obtain x s1 where x: "reviewNamespaces (\<lambda>s ns. AccessReview cl s user groups verb res nm grp ns)
      s [] nss = (x, s1)" by fastforce
  let ?allowed = "filter (grants s user groups verb res nm grp) nss"
  let ?res = "newDataResponseV1 nmf ?allowed (matcher a)"
  have ans: "answers nmf (restrict (matcher a) ?allowed) ?res"
    by (rule newDataResponseV1_answers [OF assms(1)])
  from reviewNamespaces_stable [OF assms(2) x] have x': "x = Inr ?allowed"
    and s1: "ready s1 \<and> grants s1 = grants s \<and> visible s1 = visible s" by simp_all
  show ?thesis
    using assms(3,4) x x' s1 ans
    by (cases "?allowed = []"; cases ?res)
      (auto simp: authorizeNamespaced_def intro: answers_StatusCodeError)
qed

lemma authorizeClusterWide_stable:
  assumes "newMatcherContract nmf" "ready s" "client a = cl"
    and "authorizeClusterWide nmf a s nss = (r, s')"
  shows "answers nmf (if Keys (matcher a) = [] then AllowAll else restrict (matcher a)
      (if nss = [] then visible s else filter (\<lambda>n. n \<in> set (visible s)) nss)) r
    \<and> ready s' \<and> grants s' = grants s \<and> visible s' = visible s"
proof -
  obtain x s1 where x: "ListNamespaces cl s = (x, s1)" by fastforce
  from namespaces [OF assms(2) x] assms(2-4) x show ?thesis
    using newDataResponseV1_answers [OF assms(1), of "matcher a"]
    by (auto simp: authorizeClusterWide_def IsEmpty_iff filterListed_map Let_def split: if_splits)
qed

lemma authorizeInner_stable:
  assumes "newMatcherContract nmf" "ready s" "client a = cl"
    and "authorizeInner nmf a s user groups verb res nm grp nss md = (r, s')"
  shows "answers nmf (decide (grants s user groups verb res nm grp) (visible s) (matcher a) verb nss md) r
    \<and> ready s' \<and> grants s' = grants s \<and> visible s' = visible s"
proof -
  obtain x s1 where x: "AccessReview cl s user groups verb res nm grp [] = (x, s1)" by fastforce
  obtain y s2 where y: "ListNamespaces cl s1 = (y, s2)" by fastforce
  from review [OF assms(2) x] have s1: "x = Inr (grants s user groups verb res nm grp [])"
    "ready s1" "grants s1 = grants s" "visible s1 = visible s" by simp_all
  from namespaces [OF s1(2) y] s1 have s2: "y = Inr (visible s)"
    "ready s2" "grants s2 = grants s" "visible s2 = visible s" by simp_all
  show ?thesis
    using assms(3,4) x s1 y s2
      authorizeClusterWide_stable [OF assms(1) s1(2) assms(3), of nss r s']
      authorizeNamespaced_stable [OF assms(1) s1(2) assms(3), of user groups verb res nm grp nss r s']
      authorizeNamespaced_stable [OF assms(1) s2(2) assms(3), of user groups verb res nm grp "visible s" r s']
    by (cases "grants s user groups verb res nm grp []"; cases "verb = CreateVerb"; cases "md \<and> nss = []")
      (auto simp: authorizeInner_def decide_def Let_def split: if_splits)
qed

end

section \<open>Every grant has its answer\<close>

text \<open>A client that records its calls with their answers, and is otherwise the given one.\<close>

datatype apiCall =
    Reviewed string "string list" string string string string string "go_error + bool"
  | Listed "go_error + string list"

definition logged :: "'s Client \<Rightarrow> ('s \<times> apiCall list) Client" where
  "logged cl =
     \<lparr>AccessReview = (\<lambda>(s, l) user groups verb res nm grp ns.
        let (x, s') = AccessReview cl s user groups verb res nm grp ns
        in (x, s', l @ [Reviewed user groups verb res nm grp ns x])),
      ListNamespaces = (\<lambda>(s, l).
        let (x, s') = ListNamespaces cl s in (x, s', l @ [Listed x]))\<rparr>"

text \<open>
  The calls \<open>es\<close> back a decision, where \<open>q n x\<close> is the review of namespace n with answer x: a plain
  yes needs a positive cluster-wide review, or, when the matcher has no key, one of a namespace;
  each namespace of a restriction needs its own positive review, or a positive cluster-wide review
  together with a list of namespaces it is on.
\<close>

definition backed :: "(string \<Rightarrow> go_error + bool \<Rightarrow> apiCall) \<Rightarrow> Matcher \<Rightarrow> apiCall list \<Rightarrow> decision \<Rightarrow> bool" where
  "backed q m es d \<longleftrightarrow>
     (case d of
        Deny \<Rightarrow> True
      | AllowAll \<Rightarrow> q [] (Inr True) \<in> set es \<or> Keys m = [] \<and> (\<exists>n. q n (Inr True) \<in> set es)
      | Restrict keys op ns \<Rightarrow> keys = Keys m \<and> op = MatcherOp m \<and>
          (\<forall>n \<in> set ns. q n (Inr True) \<in> set es
             \<or> q [] (Inr True) \<in> set es \<and> (\<exists>l. Listed (Inr l) \<in> set es \<and> n \<in> set l)))"

fun failedCall :: "apiCall \<Rightarrow> bool" where
  "failedCall (Reviewed user groups verb res nm grp ns x) \<longleftrightarrow> isl x"
| "failedCall (Listed x) \<longleftrightarrow> isl x"

text \<open>A result that denies for want of an answer of the API server: an error with status 401.\<close>

definition unauthorized :: "go_error + 'r \<Rightarrow> bool" where
  "unauthorized r \<longleftrightarrow> (case r of Inl err \<Rightarrow> StatusCode err = Some StatusUnauthorized | Inr _ \<Rightarrow> False)"

lemma unauthorized_simps [simp]:
  "unauthorized (Inl (StatusCodeError err StatusUnauthorized))"
  "\<not> unauthorized (Inr x)"
  by (simp_all add: unauthorized_def)

lemma logged_AccessReview:
  "AccessReview (logged cl) (s, l) user groups verb res nm grp ns = (x, st) \<longleftrightarrow>
   AccessReview cl s user groups verb res nm grp ns = (x, fst st)
   \<and> snd st = l @ [Reviewed user groups verb res nm grp ns x]"
  by (cases st) (auto simp: logged_def split: prod.splits)

lemma logged_ListNamespaces:
  "ListNamespaces (logged cl) (s, l) = (x, st) \<longleftrightarrow>
   ListNamespaces cl s = (x, fst st) \<and> snd st = l @ [Listed x]"
  by (cases st) (auto simp: logged_def split: prod.splits)

lemma restrict_backed:
  assumes "\<And>n. n \<in> set ns \<Longrightarrow> q n (Inr True) \<in> set es
      \<or> q [] (Inr True) \<in> set es \<and> (\<exists>l. Listed (Inr l) \<in> set es \<and> n \<in> set l)"
  shows "backed q m es (restrict m ns)"
proof (cases "Keys m = [] \<and> ns \<noteq> []")
  case True
  then have "hd ns \<in> set ns" by simp
  from assms [OF this] True show ?thesis by (auto simp: restrict_def backed_def)
next
  case False
  then have "restrict m ns = Restrict (Keys m) (MatcherOp m) ns" by (auto simp: restrict_def)
  with assms show ?thesis by (simp add: backed_def)
qed

lemma reviewNamespaces_logged:
  "reviewNamespaces (\<lambda>st ns. AccessReview (logged cl) st user groups verb res nm grp ns)
     (s, l) acc nss = (x, s', l') \<Longrightarrow>
   reviewNamespaces (\<lambda>s ns. AccessReview cl s user groups verb res nm grp ns) s acc nss = (x, s') \<and>
   (\<exists>es. l' = l @ es \<and> (\<forall>al. x = Inr al \<longrightarrow>
      (\<forall>n \<in> set al. n \<in> set acc \<or> Reviewed user groups verb res nm grp n (Inr True) \<in> set es)) \<and>
     ((\<exists>ev \<in> set es. failedCall ev) \<longrightarrow> unauthorized x) \<and> (isl x \<longrightarrow> unauthorized x))"
proof (induction nss arbitrary: s l acc)
  case Nil
  then show ?case by auto
next
  case (Cons n nss)
  obtain r s1 where r: "AccessReview cl s user groups verb res nm grp n = (r, s1)" by fastforce
  let ?e = "Reviewed user groups verb res nm grp n r"
  have r': "AccessReview (logged cl) (s, l) user groups verb res nm grp n = (r, s1, l @ [?e])"
    using r by (simp add: logged_AccessReview)
  show ?case
  proof (cases r)
    case (Inl err)
    with Cons.prems r r' show ?thesis by (auto intro!: exI [of _ "[?e]"])
  next
    case (Inr ok)
    let ?acc = "if ok then acc @ [n] else acc"
    from Cons.prems r' Inr have "reviewNamespaces
        (\<lambda>st ns. AccessReview (logged cl) st user groups verb res nm grp ns) (s1, l @ [?e]) ?acc nss
        = (x, s', l')" by simp
    from Cons.IH [OF this] obtain es where es:
      "reviewNamespaces (\<lambda>s ns. AccessReview cl s user groups verb res nm grp ns) s1 ?acc nss = (x, s')"
      "l' = (l @ [?e]) @ es" "\<forall>al. x = Inr al \<longrightarrow> (\<forall>n \<in> set al. n \<in> set ?acc
        \<or> Reviewed user groups verb res nm grp n (Inr True) \<in> set es)"
      "(\<exists>ev \<in> set es. failedCall ev) \<longrightarrow> unauthorized x" "isl x \<longrightarrow> unauthorized x" by blast
    have "l' = l @ (?e # es)" using es(2) by simp
    moreover have "\<forall>al. x = Inr al \<longrightarrow> (\<forall>m \<in> set al. m \<in> set acc
        \<or> Reviewed user groups verb res nm grp m (Inr True) \<in> set (?e # es))"
      using es(3) Inr by (cases ok) auto
    moreover have "reviewNamespaces (\<lambda>s ns. AccessReview cl s user groups verb res nm grp ns)
        s acc (n # nss) = (x, s')" using r es(1) Inr by simp
    moreover have "(\<exists>ev \<in> set (?e # es). failedCall ev) \<longrightarrow> unauthorized x" using es(4) Inr by simp
    ultimately show ?thesis using es(5) by blast
  qed
qed

text \<open>
  The relation between a run with the recording client and the run with the client itself: same
  result and state, and the calls added to the log back the result.
\<close>

definition tracedRun ::
  "(string \<Rightarrow> go_error + bool \<Rightarrow> apiCall) \<Rightarrow> Matcher \<Rightarrow> apiCall list
   \<Rightarrow> (go_error + DataResponseV1) \<times> 's \<times> apiCall list \<Rightarrow> (go_error + DataResponseV1) \<times> 's \<Rightarrow> bool" where
  "tracedRun q m l run' run \<longleftrightarrow>
     run = (fst run', fst (snd run')) \<and>
     (\<exists>es. snd (snd run') = l @ es \<and>
        (\<forall>res. fst run' = Inr res \<longrightarrow> (\<exists>d. res = encodeDecision d \<and> backed q m es d)) \<and>
        ((\<exists>ev \<in> set es. failedCall ev) \<longrightarrow> unauthorized (fst run')))"

lemma backed_append: "backed q m es d \<Longrightarrow> backed q m (es' @ es) d"
  by (cases d) (auto simp: backed_def)

lemma tracedRun_prefix:
  assumes "tracedRun q m (l @ es) run' run" "\<not> (\<exists>ev \<in> set es. failedCall ev)"
  shows "tracedRun q m l run' run"
proof -
  from assms(1) obtain es' where es': "snd (snd run') = l @ (es @ es')"
    "\<forall>res. fst run' = Inr res \<longrightarrow> (\<exists>d. res = encodeDecision d \<and> backed q m es' d)"
    "(\<exists>ev \<in> set es'. failedCall ev) \<longrightarrow> unauthorized (fst run')"
    "run = (fst run', fst (snd run'))"
    unfolding tracedRun_def by auto
  then show ?thesis
    unfolding tracedRun_def using assms(2) backed_append [of q m es'] by (auto 4 3)
qed

lemma tracedRun_response:
  assumes "newMatcherContract nm"
    and "\<And>n. n \<in> set ns \<Longrightarrow> q n (Inr True) \<in> set es
      \<or> q [] (Inr True) \<in> set es \<and> (\<exists>l. Listed (Inr l) \<in> set es \<and> n \<in> set l)"
    and "fst run' = newDataResponseV1 nm ns m" "snd (snd run') = l @ es" "run = (fst run', fst (snd run'))"
    and "\<not> (\<exists>ev \<in> set es. failedCall ev)"
  shows "tracedRun q m l run' run"
proof -
  have "backed q m es (restrict m ns)" using assms(2) by (rule restrict_backed)
  then show ?thesis
    using assms(3-6) newDataResponseV1_answers [OF assms(1), of m ns]
    by (fastforce simp: tracedRun_def answers_def)
qed

lemma authorizeNamespaced_logged:
  assumes "newMatcherContract nm"
  shows "tracedRun (Reviewed user groups verb res rnm grp) m l
    (authorizeNamespaced nm (New (logged cl) cc m) (s, l) user groups verb res rnm grp nss)
    (authorizeNamespaced nm (New cl cc m) s user groups verb res rnm grp nss)"
proof -
  obtain x s' l' where run: "reviewNamespaces
      (\<lambda>st ns. AccessReview (logged cl) st user groups verb res rnm grp ns) (s, l) [] nss = (x, s', l')"
    by (metis surj_pair)
  from reviewNamespaces_logged [OF run] obtain es where
    plain: "reviewNamespaces (\<lambda>s ns. AccessReview cl s user groups verb res rnm grp ns) s [] nss = (x, s')"
    and es: "l' = l @ es" "\<forall>al. x = Inr al \<longrightarrow>
      (\<forall>n \<in> set al. Reviewed user groups verb res rnm grp n (Inr True) \<in> set es)"
      "(\<exists>ev \<in> set es. failedCall ev) \<longrightarrow> unauthorized x" "isl x \<longrightarrow> unauthorized x" by auto
  show ?thesis
  proof (cases x)
    case (Inl err)
    with run plain es show ?thesis
      by (auto simp: authorizeNamespaced_def New_def tracedRun_def unauthorized_def)
  next
    case (Inr allowed)
    show ?thesis
    proof (cases "allowed = []")
      case True
      with run plain es Inr show ?thesis
        by (auto simp: authorizeNamespaced_def New_def tracedRun_def backed_def
            intro!: exI [of _ Deny])
    next
      case False
      show ?thesis
      proof (cases "newDataResponseV1 nm allowed m")
        case (Inl err)
        with run plain es \<open>x = Inr allowed\<close> False show ?thesis
          by (auto simp: authorizeNamespaced_def New_def tracedRun_def)
      next
        case r: (Inr res)
        show ?thesis
          by (rule tracedRun_response [OF assms, of allowed _ es])
            (use run plain es Inr False r in \<open>auto simp: authorizeNamespaced_def New_def\<close>)
      qed
    qed
  qed
qed

lemma authorizeClusterWide_logged:
  assumes "newMatcherContract nm"
    and "q = Reviewed user groups verb res rnm grp"
  shows "tracedRun q m l
    (authorizeClusterWide nm (New (logged cl) cc m) (s, l @ [q [] (Inr True)]) nss)
    (authorizeClusterWide nm (New cl cc m) s nss)"
proof (cases "IsEmpty m")
  case True
  then show ?thesis
    by (auto simp: authorizeClusterWide_def New_def tracedRun_def backed_def assms(2)
        intro!: exI [of _ AllowAll])
next
  case False
  obtain x s' where ls: "ListNamespaces cl s = (x, s')" by fastforce
  then have ls': "ListNamespaces (logged cl) (s, l @ [q [] (Inr True)])
      = (x, s', l @ [q [] (Inr True), Listed x])"
    by (simp add: logged_ListNamespaces)
  show ?thesis
  proof (cases x)
    case (Inl err)
    with ls ls' False show ?thesis by (simp add: authorizeClusterWide_def New_def tracedRun_def)
  next
    case (Inr nsList)
    show ?thesis
      by (rule tracedRun_response [OF assms(1), of "if nss = [] then nsList
              else filter (\<lambda>n. n \<in> set nsList) nss" _ "[q [] (Inr True), Listed x]"])
        (use ls ls' Inr False in \<open>auto simp: authorizeClusterWide_def New_def filterListed_map
            assms(2) split: if_splits\<close>)
  qed
qed

lemma authorizeInner_logged:
  assumes "newMatcherContract nm"
  shows "tracedRun (Reviewed user groups verb res rnm grp) m l
    (authorizeInner nm (New (logged cl) cc m) (s, l) user groups verb res rnm grp nss md)
    (authorizeInner nm (New cl cc m) s user groups verb res rnm grp nss md)"
proof -
  let ?q = "Reviewed user groups verb res rnm grp"
  obtain x s1 where x: "AccessReview cl s user groups verb res rnm grp [] = (x, s1)" by fastforce
  then have x': "AccessReview (logged cl) (s, l) user groups verb res rnm grp [] = (x, s1, l @ [?q [] x])"
    by (simp add: logged_AccessReview)
  obtain y s2 where y: "ListNamespaces cl s1 = (y, s2)" by fastforce
  then have y': "ListNamespaces (logged cl) (s1, l @ [?q [] x]) = (y, s2, l @ [?q [] x, Listed y])"
    by (simp add: logged_ListNamespaces)
  note wide = authorizeClusterWide_logged [OF assms refl, of user groups verb res rnm grp m l cl cc s1 nss]
  note named = tracedRun_prefix [OF authorizeNamespaced_logged [OF assms]]
  have ok: "\<not> (\<exists>ev \<in> set [?q [] x]. failedCall ev)" if "x = Inr b" for b using that by simp
  have ok': "\<not> (\<exists>ev \<in> set [?q [] x, Listed y]. failedCall ev)" if "x = Inr b" "y = Inr ns" for b ns
    using that by simp
  show ?thesis
  proof (cases x)
    case (Inl err)
    with x x' show ?thesis by (auto simp: authorizeInner_def New_def tracedRun_def)
  next
    case (Inr clusterAllow)
    consider "verb = CreateVerb" | "verb \<noteq> CreateVerb" "clusterAllow"
      | "verb \<noteq> CreateVerb" "\<not> clusterAllow" "md \<and> nss = []"
      | "verb \<noteq> CreateVerb" "\<not> clusterAllow" "\<not> (md \<and> nss = [])" by blast
    then show ?thesis
    proof cases
      case 1
      with x x' Inr show ?thesis
        by (cases clusterAllow) (auto simp: authorizeInner_def New_def tracedRun_def backed_def
            intro: exI [of _ AllowAll] exI [of _ Deny])
    next
      case 2
      with x x' Inr wide show ?thesis by (simp add: authorizeInner_def New_def)
    next
      case 3
      show ?thesis
      proof (cases y)
        case (Inl err)
        with 3 x x' y y' Inr show ?thesis by (simp add: authorizeInner_def New_def tracedRun_def)
      next
        case (Inr nsList)
        have "tracedRun ?q m l
            (authorizeNamespaced nm (New (logged cl) cc m) (s2, l @ [?q [] x, Listed y])
              user groups verb res rnm grp nsList)
            (authorizeNamespaced nm (New cl cc m) s2 user groups verb res rnm grp nsList)"
          using ok' [OF \<open>x = Inr clusterAllow\<close> Inr] by (intro named)
        with 3 x x' y y' Inr \<open>x = Inr clusterAllow\<close> show ?thesis
          by (auto simp: authorizeInner_def New_def tracedRun_def backed_def intro!: exI [of _ Deny])
      qed
    next
      case 4
      have "tracedRun ?q m l
          (authorizeNamespaced nm (New (logged cl) cc m) (s1, l @ [?q [] x])
            user groups verb res rnm grp nss)
          (authorizeNamespaced nm (New cl cc m) s1 user groups verb res rnm grp nss)"
        using ok [OF Inr] by (intro named)
      with 4 x x' Inr show ?thesis by (auto simp: authorizeInner_def New_def)
    qed
  qed
qed

section \<open>Authorize\<close>

text \<open>The four ways a call of Authorize with an accepted verb ends.\<close>

lemma Authorize_cases:
  assumes "verb = CreateVerb \<or> verb = GetVerb"
    and "Authorize nm a (c, s) token user groups verb res rnm grp nss md = (r, c', s')"
  obtains (fetch_error) err where
      "cacheGet (cache a) c (fst (generateCacheKey token user groups verb res rnm grp nss md
        (Some (matcher a)))) = (Inl err, c')" "s' = s"
      "r = Inl (StatusCodeError (wrapf ''failed to fetch authorization response from cache'' err) 500)"
  | (hit) resp where
      "cacheGet (cache a) c (fst (generateCacheKey token user groups verb res rnm grp nss md
        (Some (matcher a)))) = (Inr (resp, True), c')" "s' = s" "r = Inr resp"
  | (failed) resp err where
      "cacheGet (cache a) c (fst (generateCacheKey token user groups verb res rnm grp nss md
        (Some (matcher a)))) = (Inr (resp, False), c')"
      "authorizeInner nm a s user (sort_Strings groups) verb res rnm grp nss md = (Inl err, s')" "r = Inl err"
  | (answered) resp c1 resp' where
      "cacheGet (cache a) c (fst (generateCacheKey token user groups verb res rnm grp nss md
        (Some (matcher a)))) = (Inr (resp, False), c1)"
      "authorizeInner nm a s user (sort_Strings groups) verb res rnm grp nss md = (Inr resp', s')" "r = Inr resp'"
      "c' = snd (cacheSet (cache a) c1 (fst (generateCacheKey token user groups verb res rnm grp nss md
        (Some (matcher a)))) resp')"
proof -
  let ?kg = "generateCacheKey token user groups verb res rnm grp nss md (Some (matcher a))"
  have g: "snd ?kg = sort_Strings groups"
    by (simp add: generateCacheKey_def hashUserinfo_def Let_def)
  obtain x c1 where get: "cacheGet (cache a) c (fst ?kg) = (x, c1)" by fastforce
  obtain y s1 where inner: "authorizeInner nm a s user (sort_Strings groups) verb res rnm grp nss md = (y, s1)"
    by fastforce
  obtain k g' where kg: "?kg = (k, g')" by fastforce
  show thesis
  proof (cases x)
    case (Inl err)
    with assms get kg g show ?thesis
      by (intro fetch_error) (auto simp: Authorize_def StatusInternalServerError_def)
  next
    case (Inr p)
    obtain resp ok where p: "p = (resp, ok)" by fastforce
    show ?thesis
    proof (cases ok)
      case True
      with assms get kg g Inr p show ?thesis by (intro hit) (auto simp: Authorize_def)
    next
      case False
      show ?thesis
      proof (cases y)
        case (Inl err)
        with False assms get kg g Inr p inner show ?thesis
          by (intro failed) (auto simp: Authorize_def)
      next
        case (Inr res')
        with False assms get kg g \<open>x = Inr p\<close> p inner show ?thesis
          by (intro answered [of resp c1 res']) (auto simp: Authorize_def)
      qed
    qed
  qed
qed

text \<open>Authorize without the pair of generateCacheKey.\<close>

lemma Authorize_eq:
  "Authorize nm a (c, s) token user groups verb res rnm grp nss md =
     (if verb \<noteq> CreateVerb \<and> verb \<noteq> GetVerb then
        (Inl (StatusCodeError (Errorf (Error errUnexpectedVerb @ '': '' @ verb)) StatusBadRequest), c, s)
      else
        (let k = fst (generateCacheKey token user groups verb res rnm grp nss md (Some (matcher a)))
         in (case cacheGet (cache a) c k of
               (Inl err, c') \<Rightarrow>
                 (Inl (StatusCodeError (wrapf ''failed to fetch authorization response from cache'' err)
                    StatusInternalServerError), c', s)
             | (Inr (resp, ok), c') \<Rightarrow>
                 if ok then (Inr resp, c', s)
                 else
                   (case authorizeInner nm a s user (sort_Strings groups) verb res rnm grp nss md of
                      (Inl err, s') \<Rightarrow> (Inl err, c', s')
                    | (Inr resp', s') \<Rightarrow> (Inr resp', snd (cacheSet (cache a) c' k resp'), s')))))"
proof -
  let ?gk = "generateCacheKey token user groups verb res rnm grp nss md (Some (matcher a))"
  have "snd ?gk = sort_Strings groups"
    by (simp add: generateCacheKey_def hashUserinfo_def Let_def)
  then obtain k where "?gk = (k, sort_Strings groups)" by (metis prod.collapse)
  then show ?thesis by (simp only: Authorize_def Let_def prod.case fst_conv)
qed

lemma authorizeInner_cache:
  "authorizeInner nm (a\<lparr>cache := cc\<rparr>) s user groups verb res rnm grp nss md =
   authorizeInner nm a s user groups verb res rnm grp nss md"
proof -
  have same: "matcher (a\<lparr>cache := cc\<rparr>) = matcher a" "client (a\<lparr>cache := cc\<rparr>) = client a" by simp_all
  show ?thesis
    by (simp only: authorizeInner_def authorizeClusterWide_def authorizeNamespaced_def same)
qed

section \<open>Properties\<close>

text \<open>An API server whose policy lets joe read in ns-1 only.\<close>

definition exampleApi :: "unit apiServer" where
  "exampleApi = \<lparr>up = (\<lambda>_. True),
     rbac = (\<lambda>_ rv. sarUser rv = ''joe'' \<and> raNamespace (sarAttributes rv) = ''ns-1''),
     selfRbac = (\<lambda>_ rv. False),
     projects = (\<lambda>_. [\<lparr>projectName = ''ns-1''\<rparr>, \<lparr>projectName = ''ns-2''\<rparr>])\<rparr>"

definition exampleClient :: "unit client" where
  "exampleClient =
     \<lparr>k8sClient = \<lparr>SubjectAccessReviews_Create = (\<lambda>s rv. (Inr (rbac exampleApi s rv), s)),
        SelfSubjectAccessReviews_Create = (\<lambda>s rv. (Inr (selfRbac exampleApi s rv), s))\<rparr>,
      projectClient = \<lparr>Projects_List = (\<lambda>s. (Inr (projects exampleApi s), s))\<rparr>, ssar = False\<rparr>"

text \<open>A cache with the same answer for every key.\<close>

definition hitCache :: "unit Cacher" where
  "hitCache = \<lparr>cacheGet = (\<lambda>c k. (Inr (minimalDataResponseV1 True, True), c)),
     cacheSet = (\<lambda>c k res. (None, c))\<rparr>"

lemma apiContract_example: "apiContract exampleApi exampleClient"
  by (simp add: apiContract_def exampleClient_def samePolicy_def exampleApi_def)

text \<open>The refinement of the locale for the client of the code.\<close>

lemma authorizeInner_openshift:
  assumes "newMatcherContract nm" "apiContract api c" "up api s"
    and "authorizeInner nm (New (asClient c) cc m) s user groups verb res rnm grp nss md = (r, s')"
  shows "answers nm (decide (clientGrants api c s user groups verb res rnm grp)
      (map projectName (projects api s)) m verb nss md) r
    \<and> up api s' \<and> clientGrants api c s' = clientGrants api c s"
  using openshiftClient.authorizeInner_stable [of nm api c s "New (asClient c) cc m"] assms
  by (simp add: New_def)

text \<open>
  C3: while the API server answers by a fixed policy, authorizeInner computes the policy
  \<open>decide\<close>: on a create request the cluster-wide review alone decides; with a cluster-wide grant
  the answer is everything, or a matcher for the listed namespaces (those requested among them);
  otherwise the requested namespaces, or the listed ones for a metadata request without any, are
  reviewed one by one and those granted make the matcher. The response is that decision's, unless
  labels.NewMatcher rejects the joined namespaces; the policy is left as it was.
\<close>

theorem authorizeInner_refines_decide:
  assumes "newMatcherContract nm" "apiContract api c" "up api s"
    and "authorizeInner nm (New (asClient c) cc m) s user groups verb res rnm grp nss md = (r, s')"
  shows "answers nm (decide (clientGrants api c s user groups verb res rnm grp)
      (map projectName (projects api s)) m verb nss md) r
    \<and> up api s' \<and> clientGrants api c s' = clientGrants api c s"
  by (rule authorizeInner_openshift [OF assms])

theorem authorizeInner_refines_decide_witness:
  "authorizeInner anyNewMatcher (New (asClient exampleClient) hitCache exampleMatcher) () ''joe'' [] ''get''
     ''application'' ''logs'' ''loki.grafana.com'' [''ns-2'', ''ns-1''] False
   = (Inr (encodeDecision (Restrict (Keys exampleMatcher) (MatcherOp exampleMatcher) [''ns-1''])), ())"
proof -
  let ?run = "authorizeInner anyNewMatcher (New (asClient exampleClient) hitCache exampleMatcher) () ''joe'' []
     ''get'' ''application'' ''logs'' ''loki.grafana.com'' [''ns-2'', ''ns-1''] False"
  obtain r s' where run: "?run = (r, s')" by (metis surj_pair)
  have "answers anyNewMatcher (decide (clientGrants exampleApi exampleClient () ''joe'' [] ''get''
      ''application'' ''logs'' ''loki.grafana.com'') (map projectName (projects exampleApi ()))
      exampleMatcher ''get'' [''ns-2'', ''ns-1''] False) r"
    using authorizeInner_refines_decide [OF newMatcherContract_any apiContract_example _ run]
    by (simp add: exampleApi_def)
  moreover have "decide (clientGrants exampleApi exampleClient () ''joe'' [] ''get''
      ''application'' ''logs'' ''loki.grafana.com'') (map projectName (projects exampleApi ()))
      exampleMatcher ''get'' [''ns-2'', ''ns-1''] False
    = Restrict (Keys exampleMatcher) (MatcherOp exampleMatcher) [''ns-1'']"
    by (simp add: decide_def restrict_def CreateVerb_def clientGrants_def exampleClient_def
        exampleApi_def)
  ultimately show ?thesis
    using run by (simp add: answers_def anyNewMatcher_def split: sum.splits)
qed

text \<open>
  C4: no grant without an answer. Record every call authorizeInner makes of any client, however
  it answers. If the run yields a response, the response is that of a decision the recorded calls
  back: a plain yes needs a positive cluster-wide review of this very user, groups, verb and
  resource (or, for a matcher without keys, a positive review of some namespace), and each
  namespace of a matcher has its own positive review, or a positive cluster-wide one and a list of
  namespaces holding it. Recording changes nothing else of the run. And if any call failed, the
  result is an error with status 401.
\<close>

theorem authorizeInner_backed:
  assumes "newMatcherContract nm"
    and "authorizeInner nm (New (logged cl) cc m) (s, []) user groups verb res rnm grp nss md
      = (r, s', calls)"
  shows "authorizeInner nm (New cl cc m) s user groups verb res rnm grp nss md = (r, s')
    \<and> (case r of
         Inr resp \<Rightarrow> \<exists>d. resp = encodeDecision d
           \<and> backed (Reviewed user groups verb res rnm grp) m calls d
       | Inl err \<Rightarrow> True)
    \<and> (if list_ex failedCall calls then unauthorized r else True)"
  using authorizeInner_logged [OF assms(1), of user groups verb res rnm grp m "[]" cl cc s nss md] assms(2)
  by (auto simp: tracedRun_def list_ex_iff split: sum.splits)

theorem authorizeInner_backed_witness:
  "\<exists>d s' calls. authorizeInner anyNewMatcher (New (logged (asClient exampleClient)) hitCache exampleMatcher)
       ((), []) ''joe'' [] ''get'' ''application'' ''logs'' ''loki.grafana.com'' [''ns-2'', ''ns-1''] False
     = (Inr (encodeDecision d), s', calls)
   \<and> backed (Reviewed ''joe'' [] ''get'' ''application'' ''logs'' ''loki.grafana.com'') exampleMatcher calls d"
proof -
  let ?run = "\<lambda>a s. authorizeInner anyNewMatcher a s ''joe'' [] ''get'' ''application'' ''logs''
     ''loki.grafana.com'' [''ns-2'', ''ns-1''] False"
  obtain r s' calls where run:
    "?run (New (logged (asClient exampleClient)) hitCache exampleMatcher) ((), []) = (r, s', calls)"
    by (metis surj_pair)
  from authorizeInner_backed [OF newMatcherContract_any run]
  have plain: "fst (?run (New (asClient exampleClient) hitCache exampleMatcher) ()) = r"
    and backed: "case r of Inr resp \<Rightarrow> \<exists>d. resp = encodeDecision d
      \<and> backed (Reviewed ''joe'' [] ''get'' ''application'' ''logs'' ''loki.grafana.com'') exampleMatcher calls d
      | Inl err \<Rightarrow> True" by simp_all
  have "\<not> isl r"
    unfolding plain [symmetric] by (simp add: authorizeInner_def New_def asClient_def client_AccessReview_def
        subjectAccessReview_def exampleClient_def exampleApi_def CreateVerb_def
        authorizeNamespaced_def newDataResponseV1_def anyNewMatcher_def IsEmpty_def Marshal_def)
  with backed obtain d where "r = Inr (encodeDecision d)"
    "backed (Reviewed ''joe'' [] ''get'' ''application'' ''logs'' ''loki.grafana.com'') exampleMatcher calls d"
    by (cases r) auto
  with run show ?thesis by blast
qed

text \<open>
  C35: with a matcher without keys one granted namespace is enough. Then the answer to a read
  request is a plain yes as soon as some requested namespace is granted, although others of the
  request are not, and it names no namespace. (The comment in authorizeInner says that access is
  allowed for the namespaces where the review was successful.)
\<close>

theorem authorizeInner_keyless_matcher:
  assumes "newMatcherContract nm" "apiContract api c" "up api s" "Keys m = []"
    and "clientGrants api c s user groups GetVerb res rnm grp n" "n \<in> set nss"
    and "authorizeInner nm (New (asClient c) cc m) s user groups GetVerb res rnm grp nss md = (r, s')"
  shows "r = Inr (encodeDecision AllowAll)"
proof -
  let ?grants = "clientGrants api c s user groups GetVerb res rnm grp"
  have some: "filter ?grants nss \<noteq> []" "nss \<noteq> []" using assms(5,6) by (auto simp: filter_empty_conv)
  then have "decide ?grants v m GetVerb nss md = AllowAll" for v
    using assms(4) by (simp add: decide_def restrict_def GetVerb_def CreateVerb_def Let_def)
  with authorizeInner_openshift [OF assms(1,2,3,7)] have "answers nm AllowAll r" by simp
  then show ?thesis by (simp add: answers_def split: sum.splits)
qed

theorem authorizeInner_keyless_matcher_witness:
  "\<exists>s'. authorizeInner anyNewMatcher (New (asClient exampleClient) hitCache EmptyMatcher) () ''joe'' []
     GetVerb ''application'' ''logs'' ''loki.grafana.com'' [''ns-2'', ''ns-1''] False
   = (Inr (encodeDecision AllowAll), s')"
proof -
  obtain r s' where run: "authorizeInner anyNewMatcher (New (asClient exampleClient) hitCache EmptyMatcher) ()
      ''joe'' [] GetVerb ''application'' ''logs'' ''loki.grafana.com'' [''ns-2'', ''ns-1''] False = (r, s')"
    by (metis surj_pair)
  have "r = Inr (encodeDecision AllowAll)"
    by (rule authorizeInner_keyless_matcher [OF newMatcherContract_any apiContract_example _ _ _ _ run,
          of "''ns-1''"])
      (simp_all add: exampleApi_def exampleClient_def clientGrants_def EmptyMatcher_def)
  with run show ?thesis by blast
qed

text \<open>
  A verb other than create and get is refused before anything is done: the error has
  status 400 and names the verb, and neither the cache nor the API server is touched.
\<close>

lemma Authorize_unexpected_verb:
  assumes "verb \<noteq> ''create''" "verb \<noteq> ''get''"
  shows "Authorize nm a st token user groups verb res rnm grp nss md
    = (Inl (StatusCodeError (Errorf (''unexpected verb: '' @ verb)) 400), st)"
  using assms by (cases st) (simp add: Authorize_def CreateVerb_def GetVerb_def errUnexpectedVerb_def
      StatusBadRequest_def)

lemma Authorize_unexpected_verb_example:
  "Authorize anyNewMatcher (New (asClient exampleClient) hitCache exampleMatcher) ((), ()) ''tok'' ''joe''
     [''dev''] ''delete'' ''application'' ''logs'' ''loki.grafana.com'' [''ns-2''] False
   = (Inl (StatusCodeError (Errorf ''unexpected verb: delete'') 400), (), ())"
  using Authorize_unexpected_verb [of "''delete''"] by simp

text \<open>
  C10: errors are never cached and hits ask nobody. When Authorize returns an error, the cache
  is as it was or as the one Get left it; when the Get hits, the stored response is the result and
  the API server is not called.
\<close>

theorem Authorize_cache_discipline:
  assumes "Authorize nm a (c, s) token user groups verb res rnm grp nss md = (r, c', s')"
    and "cacheGet (cache a) c (fst (generateCacheKey token user groups verb res rnm grp nss md
      (Some (matcher a)))) = (x, c1)"
  shows "(isl r \<longrightarrow> c' = c \<or> c' = c1)
    \<and> ((verb = CreateVerb \<or> verb = GetVerb) \<and> x = Inr (resp, True) \<longrightarrow> r = Inr resp \<and> s' = s \<and> c' = c1)"
proof (cases "verb = CreateVerb \<or> verb = GetVerb")
  case True
  from this assms(1) show ?thesis
    by (cases rule: Authorize_cases) (use assms(2) in auto)
next
  case False
  with assms(1) show ?thesis by (auto simp: Authorize_def split: prod.splits)
qed

theorem Authorize_cache_discipline_witness:
  "Authorize anyNewMatcher (New (asClient exampleClient) hitCache exampleMatcher) ((), ()) ''tok'' ''joe''
     [''dev''] GetVerb ''application'' ''logs'' ''loki.grafana.com'' [''ns-2''] False
   = (Inr (minimalDataResponseV1 True), (), ())"
proof -
  let ?a = "New (asClient exampleClient) hitCache exampleMatcher"
  obtain r c' s' where run: "Authorize anyNewMatcher ?a ((), ()) ''tok'' ''joe''
      [''dev''] GetVerb ''application'' ''logs'' ''loki.grafana.com'' [''ns-2''] False = (r, c', s')"
    by (metis surj_pair)
  have "cacheGet (cache ?a) () k = (Inr (minimalDataResponseV1 True, True), ())" for k
    by (simp add: New_def hitCache_def)
  from Authorize_cache_discipline [OF run this] have "r = Inr (minimalDataResponseV1 True)" by simp
  with run show ?thesis by simp
qed

text \<open>
  C28: a failing write to the cache is harmless. Whatever the cache's Set does, the result of
  Authorize and the calls to the API server are the same.
\<close>

theorem Authorize_ignores_Set:
  "fst (Authorize nm (a\<lparr>cache := (cache a)\<lparr>cacheSet := set'\<rparr>\<rparr>) (c, s) token user groups verb res rnm
     grp nss md)
   = fst (Authorize nm a (c, s) token user groups verb res rnm grp nss md)
   \<and> snd (snd (Authorize nm (a\<lparr>cache := (cache a)\<lparr>cacheSet := set'\<rparr>\<rparr>) (c, s) token user groups verb
       res rnm grp nss md))
   = snd (snd (Authorize nm a (c, s) token user groups verb res rnm grp nss md))"
proof -
  let ?a = "a\<lparr>cache := (cache a)\<lparr>cacheSet := set'\<rparr>\<rparr>"
  have same: "matcher ?a = matcher a" "cacheGet (cache ?a) = cacheGet (cache a)"
    "cacheSet (cache ?a) = set'" by simp_all
  show ?thesis
    unfolding Authorize_eq authorizeInner_cache same Let_def
    by (simp split: prod.splits sum.splits)
qed

text \<open>
  C27: the order of a user's groups is irrelevant. Two requests that differ in it only have
  the same result and leave the cache and the API server in the same state, since the groups are
  sorted before the key is made and before they are sent to be reviewed.
\<close>

theorem Authorize_group_order:
  assumes "mset groups = mset groups'"
  shows "Authorize nm a st token user groups verb res rnm grp nss md
    = Authorize nm a st token user groups' verb res rnm grp nss md"
proof -
  have "sort_Strings groups = sort_Strings groups'"
    using assms by (metis sort_Strings_def mset_sort properties_for_sort sorted_sort)
  then have "generateCacheKey token user groups verb res rnm grp nss md (Some (matcher a))
      = generateCacheKey token user groups' verb res rnm grp nss md (Some (matcher a))"
    by (simp add: generateCacheKey_def hashUserinfo_def)
  then show ?thesis unfolding Authorize_def by (simp only:)
qed

theorem Authorize_group_order_witness:
  "Authorize anyNewMatcher (New (asClient exampleClient) hitCache exampleMatcher) ((), ()) ''tok'' ''joe''
     [''b'', ''a''] GetVerb ''application'' ''logs'' ''loki.grafana.com'' [''ns-2''] False
   = Authorize anyNewMatcher (New (asClient exampleClient) hitCache exampleMatcher) ((), ()) ''tok'' ''joe''
     [''a'', ''b''] GetVerb ''application'' ''logs'' ''loki.grafana.com'' [''ns-2''] False"
  by (rule Authorize_group_order) simp

end
