(* ===== verification/Go_Regexp.thy ===== *)
theory Go_Regexp
  imports Go_Prelude
begin

text \<open>
  Go's package regexp as far as the program uses it: patterns made of byte classes, sequence and
  star, anchored at both ends of the text, matched by Brzozowski derivatives. \<open>lang\<close> is the
  denotation, and \<open>Match_lang\<close> says that matching decides it.
\<close>

text \<open>A class is a list of byte ranges, as in [_A-Za-z].\<close>

type_synonym byteClass = "(char \<times> char) list"

datatype regexp =
    NoMatch
  | Empty
  | Class byteClass
  | Seq regexp regexp
  | Alt regexp regexp
  | Star regexp

definition inClass :: "byteClass \<Rightarrow> char \<Rightarrow> bool" where
  "inClass cls c \<longleftrightarrow> list_ex (\<lambda>(lo, hi). lo \<le> c \<and> c \<le> hi) cls"

fun nullable :: "regexp \<Rightarrow> bool" where
  "nullable NoMatch = False"
| "nullable Empty = True"
| "nullable (Class cls) = False"
| "nullable (Seq r t) = (nullable r \<and> nullable t)"
| "nullable (Alt r t) = (nullable r \<or> nullable t)"
| "nullable (Star r) = True"

fun deriv :: "char \<Rightarrow> regexp \<Rightarrow> regexp" where
  "deriv c NoMatch = NoMatch"
| "deriv c Empty = NoMatch"
| "deriv c (Class cls) = (if inClass cls c then Empty else NoMatch)"
| "deriv c (Seq r t) =
     (if nullable r then Alt (Seq (deriv c r) t) (deriv c t) else Seq (deriv c r) t)"
| "deriv c (Alt r t) = Alt (deriv c r) (deriv c t)"
| "deriv c (Star r) = Seq (deriv c r) (Star r)"

text \<open>Match of the pattern ^r$.\<close>

fun Match :: "regexp \<Rightarrow> string \<Rightarrow> bool" where
  "Match r [] = nullable r"
| "Match r (c # s) = Match (deriv c r) s"

section \<open>The language of a pattern\<close>

inductive_set stars :: "string set \<Rightarrow> string set" for L where
  stars_Nil: "[] \<in> stars L"
| stars_append: "u \<in> L \<Longrightarrow> v \<in> stars L \<Longrightarrow> u @ v \<in> stars L"

fun lang :: "regexp \<Rightarrow> string set" where
  "lang NoMatch = {}"
| "lang Empty = {[]}"
| "lang (Class cls) = {[c] | c. inClass cls c}"
| "lang (Seq r t) = {u @ v | u v. u \<in> lang r \<and> v \<in> lang t}"
| "lang (Alt r t) = lang r \<union> lang t"
| "lang (Star r) = stars (lang r)"

lemma stars_Cons: "c # s \<in> stars L \<longleftrightarrow> (\<exists>u v. s = u @ v \<and> c # u \<in> L \<and> v \<in> stars L)"
proof
  assume "c # s \<in> stars L"
  then show "\<exists>u v. s = u @ v \<and> c # u \<in> L \<and> v \<in> stars L"
  proof (induction "c # s" arbitrary: s)
    case (stars_append u v)
    then show ?case by (cases u) auto
  qed
next
  assume "\<exists>u v. s = u @ v \<and> c # u \<in> L \<and> v \<in> stars L"
  then show "c # s \<in> stars L" using stars_append by (metis append_Cons)
qed

lemma nullable_lang: "nullable r \<longleftrightarrow> [] \<in> lang r"
  by (induction r) (auto intro: stars_Nil)

lemma deriv_lang: "s \<in> lang (deriv c r) \<longleftrightarrow> c # s \<in> lang r"
proof (induction r arbitrary: s)
  case (Seq r t)
  have split: "c # s \<in> lang (Seq r t) \<longleftrightarrow>
      (\<exists>u v. s = u @ v \<and> c # u \<in> lang r \<and> v \<in> lang t) \<or> [] \<in> lang r \<and> c # s \<in> lang t"
    by (auto simp: Cons_eq_append_conv)
  show ?case unfolding split using Seq by (auto simp: nullable_lang)
next
  case (Star r)
  then show ?case by (auto simp: stars_Cons)
qed auto

lemma Match_lang: "Match r s \<longleftrightarrow> s \<in> lang r"
  by (induction r s rule: Match.induct) (simp_all add: nullable_lang deriv_lang)

section \<open>The classes used\<close>

text \<open>\<open>\w\<close> is [0-9A-Za-z_].\<close>

definition wordClass :: byteClass where
  "wordClass = [(CHR ''0'', CHR ''9''), (CHR ''A'', CHR ''Z''), (CHR ''_'', CHR ''_''), (CHR ''a'', CHR ''z'')]"

definition startClass :: byteClass where
  "startClass = [(CHR ''_'', CHR ''_''), (CHR ''A'', CHR ''Z''), (CHR ''a'', CHR ''z'')]"

lemma lang_Star_Class: "lang (Star (Class cls)) = {s. \<forall>c \<in> set s. inClass cls c}"
proof -
  have "s \<in> stars {[c] | c. inClass cls c} \<longleftrightarrow> (\<forall>c \<in> set s. inClass cls c)" for s
    by (induction s) (auto simp: stars_Cons intro: stars_Nil)
  then show ?thesis by auto
qed

lemma lang_Seq_Class: "lang (Seq (Class cls) r) = {c # t | c t. inClass cls c \<and> t \<in> lang r}"
proof -
  have "c # t \<in> lang (Seq (Class cls) r)" if "inClass cls c" "t \<in> lang r" for c t
  proof -
    have "c # t = [c] @ t" by simp
    with that show ?thesis unfolding lang.simps(3,4) by blast
  qed
  then show ?thesis by auto
qed

end
