(* ===== verification/Config.thy ===== *)
theory Config
  imports Matcher Go_Regexp "HOL-Library.Word"
begin

text \<open>
  The configuration (internal/config/config.go, tls.go): ParseFlags with its validation, and the
  TLS configuration of a server.

  Outside the repository, and so parameters: pflag's Parse, which turns the registered defaults
  into the values of the command line (\<open>pflag_Parse\<close>); the verdict of MarkHidden; and the functions
  of crypto/tls and component-base that load certificates and read version and cipher names
  (\<open>tlsLib\<close>). \<open>quoted\<close> is the rendering of a string by the verb %q, which only appears in the text
  of an error. A call of stdlog.Fatal ends the process: \<open>Fatal\<close>.
\<close>

section \<open>Data\<close>

datatype 'a exit = Fatal string | Returned "go_error + 'a"

datatype levelOption = AllowError | AllowWarn | AllowInfo | AllowDebug

record ServerConfig =
  Listen :: string
  ListenInternal :: string
  HealthcheckURL :: string

record TLSConfig =
  MinVersion :: string
  CipherSuites :: "string list"
  ServerCertFile :: string
  ServerKeyFile :: string
  InternalServerCertFile :: string
  InternalServerKeyFile :: string
  InternalServerCAFile :: string

record MemcachedConfig =
  Expire :: "32 word"
  Interval :: "32 word"
  Servers :: "string list"

record Config =
  KubeconfigPath :: string
  DebugToken :: string
  Name :: string
  Mappings :: "string \<rightharpoonup> string"
  LogFormat :: string
  LogLevel :: levelOption
  Opa :: OPAConfig
  Server :: ServerConfig
  TLS :: TLSConfig
  Memcached :: MemcachedConfig

definition validRule :: regexp where
  "validRule = Seq (Class startClass) (Star (Class wordClass))"

definition validPackage :: regexp where
  "validPackage = Seq validRule (Star (Seq (Class [(CHR ''.'', CHR ''.'')]) validRule))"

definition errInvalidOPAPackage :: go_error where
  "errInvalidOPAPackage = Errorf ''invalid OPA package name''"
definition errInvalidOPARule :: go_error where
  "errInvalidOPARule = Errorf ''invalid OPA rule name''"
definition errInvalidMapping :: go_error where
  "errInvalidMapping = Errorf ''invalid mapping''"
definition errViaQOTELMatcher :: go_error where
  "errViaQOTELMatcher = Errorf (''OPA matcher must contain both '' @ [CHR 0x27] @
     ''kubernetes_namespace_name'' @ [CHR 0x27] @ '' and '' @ [CHR 0x27] @ ''k8s_namespace_name'' @
     [CHR 0x27] @ '' when ViaQ to OTel migration is enabled'')"
definition errUnexpectedLogLevel :: go_error where
  "errUnexpectedLogLevel = Errorf ''unexpected log level''"

text \<open>fmt.Errorf with the format "%w: %s".\<close>

definition wrapText :: "go_error \<Rightarrow> string \<Rightarrow> go_error" where
  "wrapText e detail = Errorf (Error e @ '': '' @ detail)"

section \<open>Flags\<close>

text \<open>The registered flags; a string slice that was not given is nil, \<open>None\<close>.\<close>

record flagValues =
  debug_name :: string
  log_level :: string
  log_format :: string
  web_listen :: string
  web_internal_listen :: string
  web_healthchecks_url :: string
  tls_min_version :: string
  tls_cipher_suites :: string
  tls_server_cert_file :: string
  tls_server_key_file :: string
  tls_internal_server_cert_file :: string
  tls_internal_server_key_file :: string
  tls_internal_server_ca_file :: string
  openshift_kubeconfig :: string
  openshift_mappings :: "string list option"
  opa_package :: string
  opa_rule :: string
  opa_matcher :: string
  opa_matcher_op :: string
  opa_skip_tenants :: string
  opa_admin_groups :: string
  opa_ssar :: bool
  opa_viaq_to_otel_migration :: bool
  memcached :: "string list option"
  memcached_expire :: "32 word"
  memcached_interval :: "32 word"
  debug_token :: string

definition flagDefaults :: flagValues where
  "flagDefaults = \<lparr>debug_name = ''opa-openshift'', log_level = ''info'', log_format = ''logfmt'',
     web_listen = '':8080'', web_internal_listen = '':8081'',
     web_healthchecks_url = ''http://localhost:8080'', tls_min_version = ''VersionTLS13'',
     tls_cipher_suites = [], tls_server_cert_file = [], tls_server_key_file = [],
     tls_internal_server_cert_file = [], tls_internal_server_key_file = [],
     tls_internal_server_ca_file = [], openshift_kubeconfig = [], openshift_mappings = None,
     opa_package = [], opa_rule = ''allow'', opa_matcher = [], opa_matcher_op = [],
     opa_skip_tenants = [], opa_admin_groups = [], opa_ssar = False,
     opa_viaq_to_otel_migration = False, memcached = None, memcached_expire = 60,
     memcached_interval = 10, debug_token = []\<rparr>"

definition parseLogLevel :: "string \<Rightarrow> go_error + levelOption" where
  "parseLogLevel raw =
     (if raw = ''error'' then Inr AllowError
      else if raw = ''warn'' then Inr AllowWarn
      else if raw = ''info'' then Inr AllowInfo
      else if raw = ''debug'' then Inr AllowDebug
      else Inl (wrapText errUnexpectedLogLevel raw))"

text \<open>The loop over the mappings.\<close>

fun parseMappings ::
  "(string \<Rightarrow> string) \<Rightarrow> (string \<rightharpoonup> string) \<Rightarrow> string list \<Rightarrow> go_error + (string \<rightharpoonup> string)" where
  "parseMappings quoted ms [] = Inr ms"
| "parseMappings quoted ms (m # rest) =
     (let parts = split CHR ''='' m
      in if length parts \<noteq> 2 then Inl (wrapText errInvalidMapping (quoted m))
         else parseMappings quoted (ms(parts ! 0 \<mapsto> parts ! 1)) rest)"

text \<open>What the flag variables hold after Parse; LogLevel and Mappings are set later.\<close>

definition flagConfig :: "flagValues \<Rightarrow> levelOption \<Rightarrow> (string \<rightharpoonup> string) \<Rightarrow> Config" where
  "flagConfig v ll mappings =
     \<lparr>KubeconfigPath = openshift_kubeconfig v, DebugToken = debug_token v, Name = debug_name v,
      Mappings = mappings, LogFormat = log_format v, LogLevel = ll,
      Opa = \<lparr>Pkg = opa_package v, Rule = opa_rule v, opa_Matcher = opa_matcher v,
        opa_MatcherOp = opa_matcher_op v, MatcherSkipTenants = opa_skip_tenants v,
        MatcherAdminGroups = opa_admin_groups v, SSAR = opa_ssar v,
        opa_ViaQToOTELMigration = opa_viaq_to_otel_migration v\<rparr>,
      Server = \<lparr>Listen = web_listen v, ListenInternal = web_internal_listen v,
        HealthcheckURL = web_healthchecks_url v\<rparr>,
      TLS = \<lparr>MinVersion = tls_min_version v,
        CipherSuites = (if tls_cipher_suites v \<noteq> [] then split CHR '','' (tls_cipher_suites v) else []),
        ServerCertFile = tls_server_cert_file v, ServerKeyFile = tls_server_key_file v,
        InternalServerCertFile = tls_internal_server_cert_file v,
        InternalServerKeyFile = tls_internal_server_key_file v,
        InternalServerCAFile = tls_internal_server_ca_file v\<rparr>,
      Memcached = \<lparr>Expire = memcached_expire v, Interval = memcached_interval v,
        Servers = (case memcached v of None \<Rightarrow> [] | Some servers \<Rightarrow> servers)\<rparr>\<rparr>"

definition ParseFlags ::
  "(string \<Rightarrow> string) \<Rightarrow> (flagValues \<Rightarrow> flagValues) \<Rightarrow> go_error option \<Rightarrow> Config exit" where
  "ParseFlags quoted pflag_Parse markHidden =
     (case markHidden of
        Some err \<Rightarrow> Fatal ''failed to mark flag hidden''
      | None \<Rightarrow>
          (let v = pflag_Parse flagDefaults
           in (case parseLogLevel (log_level v) of
                 Inl err \<Rightarrow> Returned (Inl (wrapf ''invalid log level'' err))
               | Inr ll \<Rightarrow>
                   if 0 < length (opa_package v) \<and> \<not> Match validPackage (opa_package v) then
                     Returned (Inl (wrapText errInvalidOPAPackage (opa_package v)))
                   else if 0 < length (opa_rule v) \<and> \<not> Match validRule (opa_rule v) then
                     Returned (Inl (wrapText errInvalidOPARule (opa_rule v)))
                   else
                     (case openshift_mappings v of
                        None \<Rightarrow> Fatal ''missing tenant mappings''
                      | Some mappingsRaw \<Rightarrow>
                          (case parseMappings quoted Map.empty mappingsRaw of
                             Inl err \<Rightarrow> Returned (Inl err)
                           | Inr mappings \<Rightarrow>
                               if opa_viaq_to_otel_migration v \<and>
                                  (\<not> contains (opa_matcher v) kubernetes_namespace_name
                                   \<or> \<not> contains (opa_matcher v) k8s_namespace_name)
                               then Returned (Inl errViaQOTELMatcher)
                               else Returned (Inr (flagConfig v ll mappings)))))))"

section \<open>TLS\<close>

datatype clientAuthType = RequestClientCert

record ('cert, 'ver, 'suite) tls_Config =
  Certificates :: "'cert list"
  cfgCipherSuites :: "'suite list"
  ClientAuth :: clientAuthType
  cfgMinVersion :: 'ver

record ('cert, 'ver, 'suite) tlsLib =
  LoadX509KeyPair :: "string \<Rightarrow> string \<Rightarrow> go_error + 'cert"
  TLSVersion :: "string \<Rightarrow> go_error + 'ver"
  TLSCipherSuites :: "string list \<Rightarrow> go_error + 'suite list"

definition NewServerConfig ::
  "('cert, 'ver, 'suite) tlsLib \<Rightarrow> string \<Rightarrow> string \<Rightarrow> string \<Rightarrow> string list
   \<Rightarrow> go_error + ('cert, 'ver, 'suite) tls_Config option" where
  "NewServerConfig lib certFile keyFile minVersion cipherSuites =
     (if certFile = [] \<and> keyFile = [] then Inr None
      else
        (case LoadX509KeyPair lib certFile keyFile of
           Inl err \<Rightarrow> Inl (wrapf ''server credentials'' err)
         | Inr tlsCert \<Rightarrow>
             (case TLSVersion lib minVersion of
                Inl err \<Rightarrow> Inl (wrapf ''TLS version invalid'' err)
              | Inr version \<Rightarrow>
                  (case TLSCipherSuites lib cipherSuites of
                     Inl err \<Rightarrow> Inl (wrapf ''TLS cipher suite name to ID conversion'' err)
                   | Inr cipherSuiteIDs \<Rightarrow>
                       Inr (Some \<lparr>Certificates = [tlsCert], cfgCipherSuites = cipherSuiteIDs,
                         ClientAuth = RequestClientCert, cfgMinVersion = version\<rparr>)))))"

section \<open>Identifiers\<close>

text \<open>What the two patterns mean: an identifier, and identifiers separated by dots.\<close>

definition isIdent :: "string \<Rightarrow> bool" where
  "isIdent s \<longleftrightarrow> s \<noteq> [] \<and> inClass startClass (hd s) \<and> list_all (inClass wordClass) s"

lemma startClass_word: "inClass startClass c \<Longrightarrow> inClass wordClass c"
  by (auto simp: inClass_def startClass_def wordClass_def)

lemma word_notin: "inClass wordClass c \<Longrightarrow> c \<noteq> CHR ''.'' \<and> c \<noteq> CHR ''/''"
  by (auto simp: inClass_def wordClass_def less_eq_char_def)

lemma isIdent_notin:
  assumes "isIdent s"
  shows "CHR ''.'' \<notin> set s" "CHR ''/'' \<notin> set s"
  using assms word_notin by (auto simp: isIdent_def list_all_iff)

lemma lang_validRule: "lang validRule = {s. isIdent s}"
proof -
  have "s \<in> lang validRule \<longleftrightarrow> isIdent s" for s
  proof (cases s)
    case (Cons c t)
    have "s \<in> lang validRule \<longleftrightarrow> inClass startClass c \<and> (\<forall>d \<in> set t. inClass wordClass d)"
      unfolding validRule_def lang_Seq_Class lang_Star_Class using Cons by auto
    with Cons startClass_word show ?thesis by (auto simp: isIdent_def list_all_iff)
  qed (auto simp: validRule_def isIdent_def)
  then show ?thesis by auto
qed

lemma Match_validRule: "Match validRule s \<longleftrightarrow> isIdent s"
  by (simp add: Match_lang lang_validRule)

lemma join_concat: "join [c] (p # ps) = p @ concat (map ((#) c) ps)"
  by (induction ps arbitrary: p) (simp_all add: join_Cons)

lemma stars_dotted:
  "stars {c # q | q. isIdent q} = {concat (map ((#) c) ps) | ps. list_all isIdent ps}"
proof -
  have "s \<in> {concat (map ((#) c) ps) | ps. list_all isIdent ps}" if "s \<in> stars {c # q | q. isIdent q}" for s
    using that
  proof induction
    case stars_Nil
    have "[] = concat (map ((#) c) []) \<and> list_all isIdent []" by simp
    then show ?case by blast
  next
    case (stars_append u v)
    then obtain q ps where "u = c # q" "isIdent q" "v = concat (map ((#) c) ps)" "list_all isIdent ps"
      by blast
    then have "u @ v = concat (map ((#) c) (q # ps)) \<and> list_all isIdent (q # ps)" by simp
    then show ?case by blast
  qed
  moreover have "concat (map ((#) c) ps) \<in> stars {c # q | q. isIdent q}" if "list_all isIdent ps" for ps
    using that
  proof (induction ps)
    case (Cons q ps)
    then have "(c # q) @ concat (map ((#) c) ps) \<in> stars {c # q | q. isIdent q}"
      by (intro stars.stars_append) auto
    then show ?case by simp
  qed (simp add: stars.stars_Nil)
  ultimately show ?thesis by blast
qed

lemma Match_validPackage: "Match validPackage s \<longleftrightarrow> list_all isIdent (split CHR ''.'' s)"
proof -
  have dot: "lang (Seq (Class [(CHR ''.'', CHR ''.'')]) validRule) = {CHR ''.'' # q | q. isIdent q}"
    unfolding lang_Seq_Class lang_validRule by (auto simp: inClass_def)
  have "s \<in> lang validPackage \<longleftrightarrow>
      (\<exists>p ps. s = p @ concat (map ((#) CHR ''.'') ps) \<and> isIdent p \<and> list_all isIdent ps)"
    unfolding validPackage_def lang.simps(4) [of validRule] lang.simps(6) dot lang_validRule stars_dotted
    by blast
  also have "\<dots> \<longleftrightarrow> (\<exists>ps. ps \<noteq> [] \<and> s = join ''.'' ps \<and> list_all isIdent ps)"
    by (metis join_concat list.exhaust list.pred_inject(2) list.distinct(1))
  also have "\<dots> \<longleftrightarrow> list_all isIdent (split CHR ''.'' s)"
  proof
    assume "\<exists>ps. ps \<noteq> [] \<and> s = join ''.'' ps \<and> list_all isIdent ps"
    then show "list_all isIdent (split CHR ''.'' s)"
      using split_join isIdent_notin(1) by (metis list.pred_set)
  next
    assume "list_all isIdent (split CHR ''.'' s)"
    then show "\<exists>ps. ps \<noteq> [] \<and> s = join ''.'' ps \<and> list_all isIdent ps"
      by (intro exI [of _ "split CHR ''.'' s"]) (simp add: join_split)
  qed
  finally show ?thesis by (simp add: Match_lang)
qed

section \<open>Mappings\<close>

text \<open>A mapping flag is well-formed when it has exactly one equals sign.\<close>

lemma split_pair: "split c m = [a, b] \<longleftrightarrow> m = a @ c # b \<and> c \<notin> set a \<and> c \<notin> set b"
proof
  assume s: "split c m = [a, b]"
  then have "m = join [c] [a, b]" by (metis join_split)
  moreover have "c \<notin> set a" "c \<notin> set b"
    using s split_parts_notin [of a c m] split_parts_notin [of b c m] by simp_all
  ultimately show "m = a @ c # b \<and> c \<notin> set a \<and> c \<notin> set b" by simp
qed (simp add: split_append_sep split_notin)

fun mappingOf :: "string \<Rightarrow> (string \<times> string) option" where
  "mappingOf m = (case split CHR ''='' m of [t, g] \<Rightarrow> Some (t, g) | _ \<Rightarrow> None)"

declare mappingOf.simps [simp del]

lemma mappingOf_Some:
  "mappingOf m = Some (t, g) \<longleftrightarrow> m = t @ CHR ''='' # g \<and> CHR ''='' \<notin> set t \<and> CHR ''='' \<notin> set g"
  by (auto simp: mappingOf.simps split_pair [symmetric] split: list.splits)

lemma parseMappings_Cons:
  "parseMappings quoted ms (m # rest) =
     (case mappingOf m of
        None \<Rightarrow> Inl (wrapText errInvalidMapping (quoted m))
      | Some (t, g) \<Rightarrow> parseMappings quoted (ms(t \<mapsto> g)) rest)"
  by (auto simp: mappingOf.simps Let_def split: list.splits)

lemma parseMappings_Inr:
  "parseMappings quoted ms0 raw = Inr ms \<longleftrightarrow>
     (\<exists>ps. map mappingOf raw = map Some ps \<and> ms = foldl (\<lambda>m (t, g). m(t \<mapsto> g)) ms0 ps)"
proof (induction raw arbitrary: ms0)
  case (Cons m raw)
  show ?case
  proof (cases "mappingOf m")
    case None
    then show ?thesis by (auto simp: parseMappings_Cons simp del: parseMappings.simps)
  next
    case (Some p)
    obtain t g where p: "p = (t, g)" by fastforce
    have eq: "(\<exists>ps. map mappingOf (m # raw) = map Some ps \<and> ms = foldl (\<lambda>m (t, g). m(t \<mapsto> g)) ms0 ps) \<longleftrightarrow>
        (\<exists>ps. map mappingOf raw = map Some ps
           \<and> ms = foldl (\<lambda>m (t, g). m(t \<mapsto> g)) (ms0(t \<mapsto> g)) ps)"
      using Some p by (auto simp: Cons_eq_map_conv)
    show ?thesis
      unfolding eq by (simp only: parseMappings_Cons Some p option.case prod.case Cons.IH)
  qed
qed auto

text \<open>The last pair with a tenant wins.\<close>

lemma foldl_map_of: "foldl (\<lambda>m (t, g). m(t \<mapsto> g)) m0 ps t = (case map_of (rev ps) t of None \<Rightarrow> m0 t | Some g \<Rightarrow> Some g)"
  by (induction ps arbitrary: m0) (auto simp: map_add_def split: option.splits)

lemma ParseFlags_Inr:
  "ParseFlags quoted pflag_Parse mh = Returned (Inr cfg) \<longleftrightarrow>
     mh = None \<and>
     (let v = pflag_Parse flagDefaults
      in \<exists>ll raw ms. parseLogLevel (log_level v) = Inr ll
         \<and> (opa_package v = [] \<or> Match validPackage (opa_package v))
         \<and> (opa_rule v = [] \<or> Match validRule (opa_rule v))
         \<and> openshift_mappings v = Some raw \<and> parseMappings quoted Map.empty raw = Inr ms
         \<and> (opa_viaq_to_otel_migration v \<longrightarrow> contains (opa_matcher v) kubernetes_namespace_name
              \<and> contains (opa_matcher v) k8s_namespace_name)
         \<and> cfg = flagConfig v ll ms)"
  by (auto simp: ParseFlags_def Let_def split: option.splits sum.splits if_splits)

section \<open>Properties\<close>

text \<open>
  C18: what ParseFlags accepts. In a configuration it returns, the package is empty or a
  sequence of identifiers separated by dots, the rule is empty or an identifier, every mapping flag
  had the form tenant=group with no further equals sign, and the mappings are those pairs, the last
  one for each tenant. Anything else ends in an error or in the end of the process.
\<close>

theorem ParseFlags_accepts:
  assumes "ParseFlags quoted pflag_Parse mh = Returned (Inr cfg)"
  shows "(Pkg (Opa cfg) = [] \<or> list_all isIdent (split CHR ''.'' (Pkg (Opa cfg))))
    \<and> (Rule (Opa cfg) = [] \<or> isIdent (Rule (Opa cfg)))
    \<and> (\<exists>pairs. openshift_mappings (pflag_Parse flagDefaults) = Some (map (\<lambda>(t, g). t @ ''='' @ g) pairs)
          \<and> list_all (\<lambda>(t, g). CHR ''='' \<notin> set t \<and> CHR ''='' \<notin> set g) pairs
          \<and> Mappings cfg = map_of (rev pairs))"
proof -
  from assms obtain ll raw ms where v:
    "opa_package (pflag_Parse flagDefaults) = [] \<or> Match validPackage (opa_package (pflag_Parse flagDefaults))"
    "opa_rule (pflag_Parse flagDefaults) = [] \<or> Match validRule (opa_rule (pflag_Parse flagDefaults))"
    "openshift_mappings (pflag_Parse flagDefaults) = Some raw" "parseMappings quoted Map.empty raw = Inr ms"
    "cfg = flagConfig (pflag_Parse flagDefaults) ll ms"
    by (auto simp: ParseFlags_Inr Let_def)
  from v(4) obtain ps where ps: "map mappingOf raw = map Some ps"
    and ms: "ms = foldl (\<lambda>m (t, g). m(t \<mapsto> g)) Map.empty ps"
    by (auto simp: parseMappings_Inr)
  from ps have pairs: "raw = map (\<lambda>(t, g). t @ ''='' @ g) ps
      \<and> list_all (\<lambda>(t, g). CHR ''='' \<notin> set t \<and> CHR ''='' \<notin> set g) ps"
  proof (induction raw arbitrary: ps)
    case (Cons m raw)
    then obtain t g ps' where "ps = (t, g) # ps'" "mappingOf m = Some (t, g)"
      "map mappingOf raw = map Some ps'" by (auto simp: Cons_eq_map_conv)
    with Cons.IH [of ps'] show ?case by (simp add: mappingOf_Some)
  qed simp
  have "ms = map_of (rev ps)" unfolding ms by (rule ext) (simp add: foldl_map_of split: option.split)
  with v pairs show ?thesis
    by (auto simp: flagConfig_def Match_validPackage Match_validRule)
qed

text \<open>A command line with three mappings, one of them replaced.\<close>

definition exampleFlags :: "flagValues \<Rightarrow> flagValues" where
  "exampleFlags v = v\<lparr>openshift_mappings :=
       Some [''application=loki.grafana.com'', ''audit=x'', ''audit=loki.grafana.com''],
     opa_package := ''lokistack'', opa_matcher := ''kubernetes_namespace_name''\<rparr>"

definition exampleQuoted :: "string \<Rightarrow> string" where
  "exampleQuoted s = [CHR 0x22] @ s @ [CHR 0x22]"

lemma exampleFlags_accepted:
  "\<exists>cfg. ParseFlags exampleQuoted exampleFlags None = Returned (Inr cfg)"
proof -
  have "Match validPackage ''lokistack''" "Match validRule ''allow''"
    unfolding Match_validPackage Match_validRule
    by (simp_all add: isIdent_def inClass_def startClass_def wordClass_def less_eq_char_def)
  then show ?thesis
    by (simp add: ParseFlags_def exampleFlags_def flagDefaults_def parseLogLevel_def)
qed

theorem ParseFlags_accepts_witness:
  "\<exists>cfg pairs. ParseFlags exampleQuoted exampleFlags None = Returned (Inr cfg)
     \<and> map (\<lambda>(t, g). t @ ''='' @ g) pairs
       = [''application=loki.grafana.com'', ''audit=x'', ''audit=loki.grafana.com'']
     \<and> Mappings cfg = map_of (rev pairs)"
proof -
  obtain cfg where cfg: "ParseFlags exampleQuoted exampleFlags None = Returned (Inr cfg)"
    using exampleFlags_accepted by blast
  have raw: "openshift_mappings (exampleFlags flagDefaults)
      = Some [''application=loki.grafana.com'', ''audit=x'', ''audit=loki.grafana.com'']"
    by (simp add: exampleFlags_def)
  obtain pairs where "openshift_mappings (exampleFlags flagDefaults) = Some (map (\<lambda>(t, g). t @ ''='' @ g) pairs)"
    and ms: "Mappings cfg = map_of (rev pairs)"
    using ParseFlags_accepts [OF cfg] by blast
  with raw have "map (\<lambda>(t, g). t @ ''='' @ g) pairs
      = [''application=loki.grafana.com'', ''audit=x'', ''audit=loki.grafana.com'']"
    by (simp only: option.inject)
  with cfg ms show ?thesis
    by - (rule exI [of _ cfg], rule exI [of _ pairs], intro conjI)
qed

definition viaqFlags :: "flagValues \<Rightarrow> flagValues" where
  "viaqFlags v = v\<lparr>openshift_mappings := Some [], opa_viaq_to_otel_migration := True,
     opa_matcher := ''my_kubernetes_namespace_name,k8s_namespace_name_2''\<rparr>"

text \<open>
  C38: the check for the migration looks for substrings. A command line that asks for the
  migration with the matcher "my_kubernetes_namespace_name,k8s_namespace_name_2" is accepted,
  although neither of the two labels is a key of the matcher it configures; the migration then
  removes nothing. The error text says that the matcher must contain both labels.
\<close>

theorem ParseFlags_viaq_substring:
  "\<exists>cfg. ParseFlags quoted viaqFlags None = Returned (Inr cfg) \<and> opa_ViaQToOTELMigration (Opa cfg)
     \<and> kubernetes_namespace_name \<notin> set (Keys (ToMatcher (Opa cfg)))
     \<and> k8s_namespace_name \<notin> set (Keys (ToMatcher (Opa cfg)))
     \<and> ViaQToOTELMigration (ToMatcher (Opa cfg)) sels = ToMatcher (Opa cfg)"
proof -
  have "Match validRule ''allow''"
    unfolding Match_validRule
    by (simp add: isIdent_def inClass_def startClass_def wordClass_def less_eq_char_def)
  then obtain cfg where cfg: "ParseFlags quoted viaqFlags None = Returned (Inr cfg)"
    and opa: "opa_ViaQToOTELMigration (Opa cfg)"
      "opa_Matcher (Opa cfg) = ''my_kubernetes_namespace_name,k8s_namespace_name_2''"
    by (simp add: ParseFlags_def viaqFlags_def flagDefaults_def parseLogLevel_def flagConfig_def)
  have "Keys (ToMatcher (Opa cfg)) = [''my_kubernetes_namespace_name'', ''k8s_namespace_name_2'']"
    using opa(2) by (simp add: Keys_ToMatcher)
  with cfg opa(1) show ?thesis
    by (simp add: ViaQToOTELMigration_eq)
qed

text \<open>
  The operator of the matcher is not checked. Whatever value --opa.matcher-op has, the
  verdict of ParseFlags and the rest of the configuration are the same, and the value is kept. (The
  flag's help text allows the values and and or.)
\<close>

lemma ParseFlags_any_matcher_op:
  assumes "ParseFlags quoted pflag_Parse mh = Returned (Inr cfg)"
  shows "ParseFlags quoted (\<lambda>v. pflag_Parse v\<lparr>opa_matcher_op := op\<rparr>) mh
    = Returned (Inr (cfg\<lparr>Opa := (Opa cfg)\<lparr>opa_MatcherOp := op\<rparr>\<rparr>))"
  using assms by (auto simp: ParseFlags_Inr Let_def flagConfig_def)

lemma ParseFlags_any_matcher_op_example:
  "\<exists>cfg. ParseFlags exampleQuoted (\<lambda>v. exampleFlags v\<lparr>opa_matcher_op := ''xor''\<rparr>) None = Returned (Inr cfg)
     \<and> opa_MatcherOp (Opa cfg) = ''xor''"
  using exampleFlags_accepted ParseFlags_any_matcher_op [of exampleQuoted exampleFlags None _ "''xor''"] by auto

text \<open>
  C20: TLS fails closed. The server runs without TLS only when neither a certificate nor a key
  file is configured; when one of them is set, the configuration has the certificate of the two
  files and the configured minimum version and cipher suites, or start-up fails.
\<close>

theorem NewServerConfig_fails_closed:
  "case NewServerConfig lib certFile keyFile minVersion suites of
     Inr None \<Rightarrow> certFile = [] \<and> keyFile = []
   | Inr (Some cfg) \<Rightarrow> \<exists>cert. LoadX509KeyPair lib certFile keyFile = Inr cert \<and> Certificates cfg = [cert]
       \<and> TLSVersion lib minVersion = Inr (cfgMinVersion cfg)
       \<and> TLSCipherSuites lib suites = Inr (cfgCipherSuites cfg)
   | Inl err \<Rightarrow> isl (LoadX509KeyPair lib certFile keyFile) \<or> isl (TLSVersion lib minVersion)
       \<or> isl (TLSCipherSuites lib suites)"
  by (auto simp: NewServerConfig_def split: sum.splits option.splits)

end
