(* ===== verification/Handler.thy ===== *)
theory Handler
  imports Request Authorizer_Spec Config
begin

text \<open>
  The HTTP handler (internal/handler/handler.go): the closure New returns, as a function from a
  request and the state of the cache and the API server to what is written to the response and the
  new state.

  The parameters of \<open>handlerEnv\<close> stand for code outside the repository: labels.NewMatcher, the JSON
  form of OPA's response struct, the environment and constructors NewClient uses, and the order in
  which UnsortedList enumerates a set. The matcher is a value here; that the requests may share the
  configured one is the subject of Matcher_Heap. The log line about the debug token is left out.
\<close>

section \<open>The code\<close>

definition xForwardedAccessTokenHeader :: string where
  "xForwardedAccessTokenHeader = ''X-Forwarded-Access-Token''"

definition Write :: string where "Write = ''write''"
definition Read :: string where "Read = ''read''"

text \<open>
  An HTTP request: the method, the result of reading the body, the header as a function of the
  canonical name (empty when absent), and the error that writing the response body will meet.
\<close>

record http_Request =
  Method :: string
  Body :: "go_error + string"
  Header :: "string \<Rightarrow> string"
  writeError :: "go_error option"

text \<open>http.Error with message and status, and the Write of the response body.\<close>

datatype httpEvent = HttpError string nat | WriteBody string

record ('w, 'm, 'a) handlerEnv =
  envNewMatcher :: newMatcher
  envCodec :: respCodec
  envConfig :: "('w, 'm) configEnv"
  envLib :: "('w, 'm, 'a) clientLib"
  envUnsortedList :: "string list \<Rightarrow> string list"

text \<open>The set of the namespaces mentioned in the selectors, without duplicates.\<close>

fun insertAll :: "string list \<Rightarrow> string list \<Rightarrow> string list" where
  "insertAll namespaces [] = namespaces"
| "insertAll namespaces (v # vs) = insertAll (List.insert v namespaces) vs"

fun selectorNamespaces :: "string list \<Rightarrow> selectors \<Rightarrow> string list" where
  "selectorNamespaces namespaces [] = namespaces"
| "selectorNamespaces namespaces ((k, values) # sels) =
     selectorNamespaces (insertAll namespaces values) sels"

text \<open>The status of an error: that of a StatusCoder, 500 otherwise.\<close>

definition errorStatus :: "go_error \<Rightarrow> nat" where
  "errorStatus err = (case StatusCode err of Some sc \<Rightarrow> sc | None \<Rightarrow> StatusInternalServerError)"

text \<open>The end of the handler: marshalling the response and writing it.\<close>

definition writeResponse :: "respCodec \<Rightarrow> go_error option \<Rightarrow> DataResponseV1 \<Rightarrow> httpEvent list" where
  "writeResponse cd werr res =
     (case marshalResponse cd res of
        Inl err \<Rightarrow> [HttpError (Error err) StatusInternalServerError]
      | Inr out \<Rightarrow>
          (case werr of
             None \<Rightarrow> [WriteBody out]
           | Some err \<Rightarrow> [WriteBody out, HttpError (Error err) (errorStatus err)]))"

text \<open>The part after the client is made: the matcher, the namespaces and the authorizer.\<close>

definition authorizeRequest ::
  "('w, 'm, 'a) handlerEnv \<Rightarrow> 'c Cacher \<Rightarrow> Config \<Rightarrow> 'a client \<Rightarrow> go_error option \<Rightarrow> 'c \<times> 'a
   \<Rightarrow> Input \<Rightarrow> string \<Rightarrow> string \<Rightarrow> string \<Rightarrow> httpEvent list \<times> 'c \<times> 'a" where
  "authorizeRequest env c cfg oc werr st input apiGroup verb token =
     (let matcherForRequest = ForRequest (ToMatcher (Opa cfg)) (Tenant input) (elems (Groups input));
          extras = Extras input
      in if WildcardSelectors extras \<and> \<not> IsEmpty matcherForRequest then
           ([HttpError ''wildcard in query namespaces not allowed'' StatusBadRequest], st)
         else if opa_ViaQToOTELMigration (Opa cfg)
             \<and> hasValues (Selectors extras) kubernetes_namespace_name
             \<and> hasValues (Selectors extras) k8s_namespace_name then
           ([HttpError (''queries with both '' @ [CHR 0x27] @ ''kubernetes_namespace_name'' @ [CHR 0x27] @
               '' and '' @ [CHR 0x27] @ ''k8s_namespace_name'' @ [CHR 0x27] @
               '' selectors are not allowed'') StatusBadRequest], st)
         else
           (let m = (if opa_ViaQToOTELMigration (Opa cfg)
                     then ViaQToOTELMigration matcherForRequest (Selectors extras)
                     else matcherForRequest);
                namespaces = selectorNamespaces [] (Selectors extras);
                a = New (asClient oc) c m;
                (r, st') = Authorize (envNewMatcher env) a st token (Subject input) (elems (Groups input))
                  verb (Tenant input) (Resource input) apiGroup (envUnsortedList env namespaces)
                  (MetadataOnly extras)
            in (case r of
                  Inl err \<Rightarrow> ([HttpError (Error err) (errorStatus err)], st')
                | Inr res \<Rightarrow> (writeResponse (envCodec env) werr res, st'))))"

definition handle ::
  "('w, 'm, 'a) handlerEnv \<Rightarrow> 'c Cacher \<Rightarrow> 'w \<Rightarrow> Config \<Rightarrow> 'c \<times> 'a \<Rightarrow> http_Request
   \<Rightarrow> httpEvent list \<times> 'c \<times> 'a" where
  "handle env c wt cfg st r =
     (if Method r \<noteq> ''POST'' then ([HttpError ''request must be a POST'' StatusBadRequest], st)
      else
        (case Body r of
           Inl err \<Rightarrow> ([HttpError ''failed to read body'' StatusInternalServerError], st)
         | Inr body \<Rightarrow>
             (case unmarshalRequest body of
                None \<Rightarrow> ([HttpError ''failed to unmarshal JSON'' StatusInternalServerError], st)
              | Some req \<Rightarrow>
                  (let input = req_Input req
                   in (case Mappings cfg (Tenant input) of
                         None \<Rightarrow> ([HttpError ''unknown tenant'' StatusInternalServerError], st)
                       | Some apiGroup \<Rightarrow>
                           if Resource input = [] then
                             ([HttpError ''unknown resource'' StatusBadRequest], st)
                           else if Permission input \<noteq> Read \<and> Permission input \<noteq> Write then
                             ([HttpError ''unknown permission'' StatusBadRequest], st)
                           else
                             (let verb = (if Permission input = Read then GetVerb else CreateVerb);
                                  token0 = Header r xForwardedAccessTokenHeader
                              in if token0 = [] \<and> DebugToken cfg = [] then
                                   ([HttpError ''missing forwarded access token'' StatusBadRequest], st)
                                 else
                                   (let token = (if token0 = [] then DebugToken cfg else token0)
                                    in (case NewClient (envConfig env) (envLib env) wt (KubeconfigPath cfg)
                                               token (SSAR (Opa cfg)) of
                                          Inl err \<Rightarrow>
                                            ([HttpError ''failed to create openshift client''
                                                StatusInternalServerError], st)
                                        | Inr oc \<Rightarrow>
                                            authorizeRequest env c cfg oc (writeError r) st input
                                              apiGroup verb token))))))))"

section \<open>Lemmas\<close>

lemma set_insertAll: "set (insertAll namespaces vs) = set namespaces \<union> set vs"
  by (induction namespaces vs rule: insertAll.induct) auto

lemma set_selectorNamespaces:
  "set (selectorNamespaces namespaces sels) = set namespaces \<union> (\<Union>p \<in> set sels. set (snd p))"
  by (induction namespaces sels rule: selectorNamespaces.induct) (auto simp: set_insertAll)

lemma distinct_insertAll: "distinct namespaces \<Longrightarrow> distinct (insertAll namespaces vs)"
  by (induction namespaces vs rule: insertAll.induct) (auto simp: distinct_insert)

lemma distinct_selectorNamespaces:
  "distinct namespaces \<Longrightarrow> distinct (selectorNamespaces namespaces sels)"
  by (induction namespaces sels rule: selectorNamespaces.induct) (auto simp: distinct_insertAll)

text \<open>Either a guard of the handler answers and nothing happens, or the request is authorized.\<close>

definition validRequest :: "Config \<Rightarrow> http_Request \<Rightarrow> Input \<Rightarrow> string \<Rightarrow> bool" where
  "validRequest cfg r input apiGroup \<longleftrightarrow>
     Method r = ''POST'' \<and> (\<exists>body req. Body r = Inr body \<and> unmarshalRequest body = Some req \<and> input = req_Input req)
     \<and> Mappings cfg (Tenant input) = Some apiGroup \<and> Resource input \<noteq> []
     \<and> (Permission input = Read \<or> Permission input = Write)
     \<and> (Header r xForwardedAccessTokenHeader \<noteq> [] \<or> DebugToken cfg \<noteq> [])"

definition requestToken :: "Config \<Rightarrow> http_Request \<Rightarrow> string" where
  "requestToken cfg r = (if Header r xForwardedAccessTokenHeader = [] then DebugToken cfg
     else Header r xForwardedAccessTokenHeader)"

definition requestVerb :: "Input \<Rightarrow> string" where
  "requestVerb input = (if Permission input = Read then GetVerb else CreateVerb)"

lemmas status_defs = StatusBadRequest_def StatusUnauthorized_def StatusInternalServerError_def

lemma handle_valid:
  assumes "validRequest cfg r input apiGroup"
    and "NewClient (envConfig env) (envLib env) wt (KubeconfigPath cfg) (requestToken cfg r) (SSAR (Opa cfg)) = Inr oc"
  shows "handle env c wt cfg st r =
    authorizeRequest env c cfg oc (writeError r) st input apiGroup (requestVerb input) (requestToken cfg r)"
  using assms by (auto simp: handle_def validRequest_def requestToken_def requestVerb_def)

lemma handle_cases:
  assumes "handle env c wt cfg st r = (evs, st')"
  obtains (refused) msg code where "evs = [HttpError msg code]" "code = 400 \<or> code = 500" "st' = st"
  | (authorized) input apiGroup oc where "validRequest cfg r input apiGroup"
      "NewClient (envConfig env) (envLib env) wt (KubeconfigPath cfg) (requestToken cfg r) (SSAR (Opa cfg)) = Inr oc"
      "authorizeRequest env c cfg oc (writeError r) st input apiGroup (requestVerb input)
        (requestToken cfg r) = (evs, st')"
proof (cases "\<exists>input apiGroup oc. validRequest cfg r input apiGroup \<and>
    NewClient (envConfig env) (envLib env) wt (KubeconfigPath cfg) (requestToken cfg r) (SSAR (Opa cfg)) = Inr oc")
  case True
  then show ?thesis using authorized assms handle_valid by metis
next
  case False
  then have "(\<exists>msg code. evs = [HttpError msg code] \<and> (code = 400 \<or> code = 500)) \<and> st' = st"
    using assms unfolding handle_def validRequest_def requestToken_def
    by (auto simp: Let_def status_defs split: if_splits sum.splits option.splits)
  then show ?thesis using refused by blast
qed

text \<open>The statuses of the authorizer's errors.\<close>

definition authorizerStatus :: "go_error + DataResponseV1 \<Rightarrow> bool" where
  "authorizerStatus r \<longleftrightarrow> (case r of Inl err \<Rightarrow> errorStatus err \<in> {400, 401, 500} | Inr x \<Rightarrow> True)"

lemma authorizerStatus_newDataResponseV1: "authorizerStatus (newDataResponseV1 nm ns m)"
  using newDataResponseV1_error [of nm ns m]
  by (auto simp: authorizerStatus_def errorStatus_def status_defs split: sum.splits)

lemma reviewNamespaces_status:
  "reviewNamespaces rv s acc nss = (Inl err, s') \<Longrightarrow> errorStatus err = 401"
  by (induction rv s acc nss rule: reviewNamespaces.induct)
    (auto simp: errorStatus_def status_defs split: sum.splits prod.splits if_splits)

lemma authorizeInner_status:
  "authorizerStatus (fst (authorizeInner nm a s user groups verb res rnm grp nss md))"
proof -
  have named: "authorizerStatus (fst (authorizeNamespaced nm a s user groups verb res rnm grp nss))" for s nss
    by (auto simp: authorizeNamespaced_def authorizerStatus_def errorStatus_def status_defs
        split: sum.splits prod.splits dest: reviewNamespaces_status)
  have wide: "authorizerStatus (fst (authorizeClusterWide nm a s nss))" for s
    using authorizerStatus_newDataResponseV1
    by (auto simp: authorizeClusterWide_def Let_def split: sum.splits prod.splits)
      (auto simp: authorizerStatus_def errorStatus_def status_defs)
  show ?thesis
    using named wide
    by (auto simp: authorizeInner_def split: sum.splits prod.splits)
      (auto simp: authorizerStatus_def errorStatus_def status_defs)
qed

lemma Authorize_status:
  assumes "verb = CreateVerb \<or> verb = GetVerb"
    and "Authorize nm a st token user groups verb res rnm grp nss md = (Inl err, st')"
  shows "errorStatus err \<in> {400, 401, 500}"
proof -
  obtain c s c' s' where st: "st = (c, s)" "st' = (c', s')" by fastforce
  from assms show ?thesis
    unfolding st
  proof (cases rule: Authorize_cases)
    case failed
    with authorizeInner_status [of nm a s user "sort_Strings groups" verb res rnm grp nss md]
    show ?thesis by (simp add: authorizerStatus_def)
  qed (auto simp: errorStatus_def)
qed

lemma requestVerb_cases: "requestVerb input = CreateVerb \<or> requestVerb input = GetVerb"
  by (simp add: requestVerb_def)

text \<open>What authorizeRequest does, in the cases where the selectors are acceptable or not.\<close>

definition refusedSelectors :: "Config \<Rightarrow> Input \<Rightarrow> bool" where
  "refusedSelectors cfg input \<longleftrightarrow>
     WildcardSelectors (Extras input)
       \<and> Keys (ForRequest (ToMatcher (Opa cfg)) (Tenant input) (elems (Groups input))) \<noteq> []
     \<or> opa_ViaQToOTELMigration (Opa cfg)
       \<and> hasValues (Selectors (Extras input)) kubernetes_namespace_name
       \<and> hasValues (Selectors (Extras input)) k8s_namespace_name"

lemma authorizeRequest_refused:
  assumes "refusedSelectors cfg input"
  shows "\<exists>msg. authorizeRequest env c cfg oc werr st input apiGroup verb token = ([HttpError msg 400], st)"
  using assms by (auto simp: refusedSelectors_def authorizeRequest_def IsEmpty_iff Let_def status_defs)

lemma authorizeRequest_accepted:
  assumes "\<not> refusedSelectors cfg input"
  shows "authorizeRequest env c cfg oc werr st input apiGroup verb token =
    (let (r, st') = Authorize (envNewMatcher env)
           (New (asClient oc) c (requestMatcher (ToMatcher (Opa cfg)) (opa_ViaQToOTELMigration (Opa cfg))
              (Tenant input) (elems (Groups input)) (Selectors (Extras input))))
           st token (Subject input) (elems (Groups input)) verb (Tenant input) (Resource input) apiGroup
           (envUnsortedList env (selectorNamespaces [] (Selectors (Extras input)))) (MetadataOnly (Extras input))
     in (case r of
           Inl err \<Rightarrow> ([HttpError (Error err) (errorStatus err)], st')
         | Inr res \<Rightarrow> (writeResponse (envCodec env) werr res, st')))"
  using assms by (auto simp: refusedSelectors_def authorizeRequest_def requestMatcher_def IsEmpty_iff Let_def)

text \<open>A valid request and a cache without an entry for it: the handler writes the policy's decision.\<close>

lemma handle_policy:
  assumes "handle env c wt cfg (cs, a) r = (evs, st')"
    and "validRequest cfg r input apiGroup" "\<not> refusedSelectors cfg input" "writeError r = None"
    and "NewClient (envConfig env) (envLib env) wt (KubeconfigPath cfg) (requestToken cfg r) (SSAR (Opa cfg))
      = Inr oc"
    and "apiContract api oc" "up api a" "newMatcherContract (envNewMatcher env)"
    and "\<forall>k. \<exists>resp cs'. cacheGet c cs k = (Inr (resp, False), cs')"
    and "d = decide (clientGrants api oc a (Subject input) (sort_Strings (elems (Groups input)))
        (requestVerb input) (Tenant input) (Resource input) apiGroup) (map projectName (projects api a))
      (requestMatcher (ToMatcher (Opa cfg)) (opa_ViaQToOTELMigration (Opa cfg)) (Tenant input)
        (elems (Groups input)) (Selectors (Extras input)))
      (requestVerb input) (envUnsortedList env (selectorNamespaces [] (Selectors (Extras input))))
      (MetadataOnly (Extras input))"
  shows "evs = writeResponse (envCodec env) None (encodeDecision d)
    \<or> (\<exists>keys op ns k e. d = Restrict keys op ns \<and> envNewMatcher env MatchRegexp k (join ''|'' ns) = Inl e)"
proof -
  let ?m = "requestMatcher (ToMatcher (Opa cfg)) (opa_ViaQToOTELMigration (Opa cfg)) (Tenant input)
        (elems (Groups input)) (Selectors (Extras input))"
  let ?au = "New (asClient oc) c ?m"
  let ?nss = "envUnsortedList env (selectorNamespaces [] (Selectors (Extras input)))"
  let ?run = "Authorize (envNewMatcher env) ?au (cs, a) (requestToken cfg r) (Subject input)
     (elems (Groups input)) (requestVerb input) (Tenant input) (Resource input) apiGroup ?nss
     (MetadataOnly (Extras input))"
  obtain x cs' a' where run: "?run = (x, cs', a')" by (metis surj_pair)
  have evs: "evs = (case x of Inl err \<Rightarrow> [HttpError (Error err) (errorStatus err)]
      | Inr res \<Rightarrow> writeResponse (envCodec env) None res)"
    using assms(1,4) run
    by (auto simp: handle_valid [OF assms(2,5)] authorizeRequest_accepted [OF assms(3)] split: sum.splits)
  have miss: "\<exists>resp c1. cacheGet (cache ?au) cs k = (Inr (resp, False), c1)" for k
    using assms(9) by (simp add: New_def)
  have no_error: "cacheGet (cache ?au) cs k \<noteq> (Inl err, c1)" for k err c1
    using miss [of k] by force
  have no_hit: "cacheGet (cache ?au) cs k \<noteq> (Inr (resp, True), c1)" for k resp c1
    using miss [of k] by force
  have "answers (envNewMatcher env) d x"
    using requestVerb_cases run
  proof (cases rule: Authorize_cases)
    case failed
    from authorizeInner_openshift [OF assms(8,6,7) failed(2)] failed(3) assms(10)
    show ?thesis by (simp add: New_def)
  next
    case answered
    from authorizeInner_openshift [OF assms(8,6,7) answered(2)] answered(3) assms(10)
    show ?thesis by (simp add: New_def)
  next
    case fetch_error
    with no_error show ?thesis by blast
  next
    case hit
    with no_hit show ?thesis by blast
  qed
  then show ?thesis
    unfolding evs answers_def by (auto split: sum.splits decision.splits)
qed

section \<open>Properties\<close>

text \<open>A service with one tenant, whose API server lets joe read in ns-1 only, and a request of his.\<close>

definition exampleHandlerEnv :: "(unit, string, unit) handlerEnv" where
  "exampleHandlerEnv = \<lparr>envNewMatcher = anyNewMatcher, envCodec = opaCodec,
     envConfig = exampleEnv ''service'',
     envLib = \<lparr>AnonymousClientConfig = exampleAnon,
       kubernetes_NewForConfig = (\<lambda>_. Inr (k8sClient exampleClient)),
       projectv1_NewForConfig = (\<lambda>_. Inr (projectClient exampleClient))\<rparr>,
     envUnsortedList = (\<lambda>xs. xs)\<rparr>"

definition exampleConfig :: Config where
  "exampleConfig = flagConfig (exampleFlags flagDefaults) AllowInfo [''application'' \<mapsto> ''loki.grafana.com'']"

definition exampleRequest :: http_Request where
  "exampleRequest = \<lparr>Method = ''POST'',
     Body = Inr (render (requestJson [''dev''] ''read'' ''logs'' ''joe'' ''application''
       [(kubernetes_namespace_name, [''ns-2'', ''ns-1''])] False False)),
     Header = (\<lambda>_. ''tok''), writeError = None\<rparr>"

text \<open>A cache that never hits and counts the writes.\<close>

definition missCache :: "nat Cacher" where
  "missCache = \<lparr>cacheGet = (\<lambda>c k. (Inr (emptyResponse, False), c)), cacheSet = (\<lambda>c k res. (None, Suc c))\<rparr>"

lemma exampleRequest_valid:
  "\<exists>input. validRequest exampleConfig exampleRequest input ''loki.grafana.com''
     \<and> elems (Groups input) = [''dev''] \<and> Permission input = Read \<and> Resource input = ''logs''
     \<and> Subject input = ''joe'' \<and> Tenant input = ''application'' \<and> Extras input =
       \<lparr>Selectors = [(kubernetes_namespace_name, [''ns-2'', ''ns-1''])], WildcardSelectors = False,
        MetadataOnly = False\<rparr>"
proof -
  obtain g where g: "unmarshalRequest (render (requestJson [''dev''] ''read'' ''logs'' ''joe'' ''application''
        [(kubernetes_namespace_name, [''ns-2'', ''ns-1''])] False False))
      = Some \<lparr>req_Input = \<lparr>Groups = g, Permission = ''read'', Resource = ''logs'', Subject = ''joe'',
          Tenant = ''application'', Extras = \<lparr>Selectors = [(kubernetes_namespace_name, [''ns-2'', ''ns-1''])],
            WildcardSelectors = False, MetadataOnly = False\<rparr>\<rparr>\<rparr>" "elems g = [''dev'']"
    using unmarshalRequest_requestJson [of "''read''" "''logs''" "''joe''" "''application''" "[''dev'']"
        "[(kubernetes_namespace_name, [''ns-2'', ''ns-1''])]" False False]
    by (auto simp: utf8Size_ascii)
  then show ?thesis
    by (auto simp: validRequest_def exampleRequest_def exampleConfig_def flagConfig_def Read_def)
qed

lemma exampleClient_new:
  "NewClient (envConfig exampleHandlerEnv) (envLib exampleHandlerEnv) () (KubeconfigPath exampleConfig)
     token (SSAR (Opa exampleConfig)) = Inr exampleClient"
  by (simp add: NewClient_Inr exampleHandlerEnv_def exampleConfig_def flagConfig_def exampleFlags_def
      flagDefaults_def getConfig_def exampleEnv_def) (simp add: exampleClient_def)

lemma exampleAuthorize:
  "\<exists>resp. Authorize anyNewMatcher (New (asClient exampleClient) missCache m) (n, ()) token ''joe'' [''dev'']
     GetVerb ''application'' ''logs'' ''loki.grafana.com'' [''ns-1'', ''ns-2''] False = (Inr resp, Suc n, ())"
proof -
  obtain resp where resp: "newDataResponseV1 anyNewMatcher [''ns-1''] m = Inr resp"
    using newDataResponseV1_total [of m anyNewMatcher] by (auto simp: anyNewMatcher_def)
  have "authorizeInner anyNewMatcher (New (asClient exampleClient) missCache m) () ''joe'' [''dev'']
     GetVerb ''application'' ''logs'' ''loki.grafana.com'' [''ns-1'', ''ns-2''] False = (Inr resp, ())"
    using resp by (simp add: authorizeInner_def authorizeNamespaced_def New_def asClient_def
        client_AccessReview_def subjectAccessReview_def exampleClient_def exampleApi_def GetVerb_def
        CreateVerb_def)
  then show ?thesis
    by (simp add: Authorize_eq Let_def New_def missCache_def sort_Strings_def)
qed

lemma exampleAccepted: "Extras input =
       \<lparr>Selectors = [(kubernetes_namespace_name, [''ns-2'', ''ns-1''])], WildcardSelectors = False,
        MetadataOnly = False\<rparr> \<Longrightarrow> \<not> refusedSelectors exampleConfig input"
  by (simp add: refusedSelectors_def exampleConfig_def flagConfig_def exampleFlags_def flagDefaults_def)

lemma exampleHandle:
  "\<exists>evs. handle exampleHandlerEnv missCache () exampleConfig (n, ()) exampleRequest = (evs, Suc n, ())"
proof -
  obtain input where i: "validRequest exampleConfig exampleRequest input ''loki.grafana.com''"
    "elems (Groups input) = [''dev'']" "Permission input = Read" "Resource input = ''logs''"
    "Subject input = ''joe''" "Tenant input = ''application''" "Extras input =
       \<lparr>Selectors = [(kubernetes_namespace_name, [''ns-2'', ''ns-1''])], WildcardSelectors = False,
        MetadataOnly = False\<rparr>"
    using exampleRequest_valid by blast
  have nss: "envUnsortedList exampleHandlerEnv (selectorNamespaces []
      [(kubernetes_namespace_name, [''ns-2'', ''ns-1''])]) = [''ns-1'', ''ns-2'']"
    by (simp add: exampleHandlerEnv_def)
  show ?thesis
    unfolding handle_valid [OF i(1) exampleClient_new] authorizeRequest_accepted [OF exampleAccepted [OF i(7)]]
    using exampleAuthorize [of "requestMatcher (ToMatcher (Opa exampleConfig))
        (opa_ViaQToOTELMigration (Opa exampleConfig)) ''application'' [''dev'']
        [(kubernetes_namespace_name, [''ns-2'', ''ns-1''])]" n "requestToken exampleConfig exampleRequest"] i(2-) nss
    by (auto simp: requestVerb_def exampleHandlerEnv_def)
qed

text \<open>
  C8: nothing happens for a bad request. If the handler changes the state of the cache or of
  the API server at all, the request was a POST whose body could be read and decoded, its tenant is
  mapped to an API group, it names a resource, its permission is read or write, it carries a token
  or a debug token is configured, and its selectors are acceptable: no wildcard where a matcher
  applies, and not both namespace labels during the migration.
\<close>

theorem handle_acts_on_valid_requests_only:
  assumes "handle env c wt cfg st r = (evs, st')" "st' \<noteq> st"
  shows "\<exists>input apiGroup. validRequest cfg r input apiGroup \<and> \<not> refusedSelectors cfg input"
  using assms(1)
proof (cases rule: handle_cases)
  case (authorized input apiGroup oc)
  have "\<not> refusedSelectors cfg input"
    using authorizeRequest_refused [of cfg input env c oc "writeError r" st apiGroup "requestVerb input"
        "requestToken cfg r"] authorized(3) assms(2) by auto
  with authorized(1) show ?thesis by blast
qed (use assms(2) in simp)

theorem handle_acts_on_valid_requests_only_witness:
  "\<exists>input apiGroup. validRequest exampleConfig exampleRequest input apiGroup
     \<and> \<not> refusedSelectors exampleConfig input"
proof -
  obtain evs where "handle exampleHandlerEnv missCache () exampleConfig (0, ()) exampleRequest = (evs, Suc 0, ())"
    using exampleHandle by blast
  from handle_acts_on_valid_requests_only [OF this] show ?thesis by simp
qed

text \<open>
  C17: one answer. Unless writing to the connection fails, the handler writes exactly one
  response: a body, or an error with status 400, 401 or 500.
\<close>

theorem handle_answers_once:
  assumes "handle env c wt cfg st r = (evs, st')" "writeError r = None"
  shows "(\<exists>out. evs = [WriteBody out]) \<or> (\<exists>msg code. evs = [HttpError msg code] \<and> code \<in> {400, 401, 500})"
  using assms(1)
proof (cases rule: handle_cases)
  case (authorized input apiGroup oc)
  show ?thesis
  proof (cases "refusedSelectors cfg input")
    case True
    with authorizeRequest_refused [OF True, of env c oc "writeError r" st apiGroup "requestVerb input"
        "requestToken cfg r"] authorized(3) show ?thesis by auto
  next
    case False
    let ?run = "Authorize (envNewMatcher env)
           (New (asClient oc) c (requestMatcher (ToMatcher (Opa cfg)) (opa_ViaQToOTELMigration (Opa cfg))
              (Tenant input) (elems (Groups input)) (Selectors (Extras input))))
           st (requestToken cfg r) (Subject input) (elems (Groups input)) (requestVerb input) (Tenant input)
           (Resource input) apiGroup
           (envUnsortedList env (selectorNamespaces [] (Selectors (Extras input)))) (MetadataOnly (Extras input))"
    obtain x st0 where run: "?run = (x, st0)" by (metis surj_pair)
    show ?thesis
    proof (cases x)
      case (Inl err)
      have "errorStatus err \<in> {400, 401, 500}"
        by (rule Authorize_status [OF requestVerb_cases run [unfolded Inl]])
      with authorized(3) False run Inl show ?thesis by (auto simp: authorizeRequest_accepted)
    next
      case (Inr res)
      with authorized(3) False run assms(2) show ?thesis
        by (auto simp: authorizeRequest_accepted writeResponse_def status_defs split: sum.splits)
    qed
  qed
qed auto

theorem handle_answers_once_witness:
  "\<exists>evs. fst (handle exampleHandlerEnv missCache () exampleConfig (0, ()) exampleRequest) = evs
     \<and> ((\<exists>out. evs = [WriteBody out])
       \<or> (\<exists>msg code. evs = [HttpError msg code] \<and> code \<in> {400, 401, 500}))"
proof -
  obtain evs where run: "handle exampleHandlerEnv missCache () exampleConfig (0, ()) exampleRequest = (evs, Suc 0, ())"
    using exampleHandle by blast
  from handle_answers_once [OF run] show ?thesis unfolding run by (simp add: exampleRequest_def)
qed

text \<open>
  C2: the whole path of a request. Take a valid request with acceptable selectors, an API
  server that answers by a fixed policy, and a cache without an entry for it. With the tenant as
  resource, the resource as name and the API group of the tenant, the handler writes the response
  for the policy's decision: reviewed for the subject with its groups in sorted order, over the
  namespaces of all the selectors, with the matcher this tenant, these groups and these selectors
  get. The exception is a decision for which labels.NewMatcher rejects the joined namespaces.
\<close>

theorem handle_decides:
  assumes "handle env c wt cfg (cs, a) r = (evs, st')"
    and "validRequest cfg r input apiGroup" "\<not> refusedSelectors cfg input" "writeError r = None"
    and "NewClient (envConfig env) (envLib env) wt (KubeconfigPath cfg) (requestToken cfg r) (SSAR (Opa cfg))
      = Inr oc"
    and "apiContract api oc" "up api a" "newMatcherContract (envNewMatcher env)"
    and "\<forall>k. \<exists>resp cs'. cacheGet c cs k = (Inr (resp, False), cs')"
    and "d = decide (clientGrants api oc a (Subject input) (sort_Strings (elems (Groups input)))
        (requestVerb input) (Tenant input) (Resource input) apiGroup) (map projectName (projects api a))
      (requestMatcher (ToMatcher (Opa cfg)) (opa_ViaQToOTELMigration (Opa cfg)) (Tenant input)
        (elems (Groups input)) (Selectors (Extras input)))
      (requestVerb input) (envUnsortedList env (selectorNamespaces [] (Selectors (Extras input))))
      (MetadataOnly (Extras input))"
  shows "evs = writeResponse (envCodec env) None (encodeDecision d)
    \<or> (\<exists>keys op ns k e. d = Restrict keys op ns \<and> envNewMatcher env MatchRegexp k (join ''|'' ns) = Inl e)"
  by (rule handle_policy [OF assms])

theorem handle_decides_witness:
  "\<exists>k. fst (handle exampleHandlerEnv missCache () exampleConfig (0, ()) exampleRequest)
     = writeResponse opaCodec None (encodeDecision (Restrict [kubernetes_namespace_name] k [''ns-1'']))"
proof -
  obtain input where i: "validRequest exampleConfig exampleRequest input ''loki.grafana.com''"
    "elems (Groups input) = [''dev'']" "Permission input = Read" "Resource input = ''logs''"
    "Subject input = ''joe''" "Tenant input = ''application''" "Extras input =
       \<lparr>Selectors = [(kubernetes_namespace_name, [''ns-2'', ''ns-1''])], WildcardSelectors = False,
        MetadataOnly = False\<rparr>"
    using exampleRequest_valid by blast
  obtain evs st' where run: "handle exampleHandlerEnv missCache () exampleConfig (0, ()) exampleRequest = (evs, st')"
    by (metis surj_pair)
  have facts: "writeError exampleRequest = None" "up exampleApi ()" "newMatcherContract (envNewMatcher exampleHandlerEnv)"
    "\<forall>k. \<exists>resp cs'. cacheGet missCache 0 k = (Inr (resp, False), cs')"
    by (simp_all add: exampleRequest_def exampleApi_def exampleHandlerEnv_def newMatcherContract_any missCache_def)
  let ?m = "requestMatcher (ToMatcher (Opa exampleConfig)) (opa_ViaQToOTELMigration (Opa exampleConfig))
      (Tenant input) (elems (Groups input)) (Selectors (Extras input))"
  have m: "Keys ?m = [kubernetes_namespace_name]"
    by (simp add: i requestMatcher_def ForRequest_eq exempt_def exampleConfig_def flagConfig_def
        exampleFlags_def flagDefaults_def Keys_ToMatcher ToMatcher_def prepareMap_def IsEmpty_def matchersSeparator_def)
  have d: "decide (clientGrants exampleApi exampleClient () (Subject input) (sort_Strings (elems (Groups input)))
        (requestVerb input) (Tenant input) (Resource input) ''loki.grafana.com'') (map projectName (projects exampleApi ()))
      ?m (requestVerb input) (envUnsortedList exampleHandlerEnv (selectorNamespaces [] (Selectors (Extras input))))
      (MetadataOnly (Extras input)) = Restrict [kubernetes_namespace_name] (MatcherOp ?m) [''ns-1'']"
    using m by (simp add: i requestVerb_def decide_def restrict_def clientGrants_def exampleClient_def
        exampleApi_def exampleHandlerEnv_def GetVerb_def CreateVerb_def Let_def)
  from handle_decides [OF run i(1) exampleAccepted [OF i(7)] facts(1) exampleClient_new apiContract_example
      facts(2,3,4) d [symmetric]]
  have "evs = writeResponse (envCodec exampleHandlerEnv) None
      (encodeDecision (Restrict [kubernetes_namespace_name] (MatcherOp ?m) [''ns-1'']))"
    by (auto simp: exampleHandlerEnv_def anyNewMatcher_def)
  with run show ?thesis by (auto simp: exampleHandlerEnv_def)
qed

end
