(* ===== verification/Main_Program.thy ===== *)
theory Main_Program
  imports Handler
begin

text \<open>
  Start-up (main.go and internal/instrumentation/instrument.go): from the command line to the two
  HTTP servers, the cache, the data endpoint, the liveness check and the group of actors that is
  run. What happens once the servers run is the handler's (Handler, Serving).

  Outside the repository, and so parameters: pflag, crypto/tls, the two cache libraries and the
  reading of the CA file (\<open>mainEnv\<close>). The registry, the health checks and the internal handler are
  libraries too; what main hands them is kept: the collectors, in order, and the options. The logger is described by its format and name; the version
  variables set by the linker are left out.
\<close>

section \<open>Configuration of the parts\<close>

definition dataEndpoint :: string where "dataEndpoint = ''/v1/data''"

definition dataPath :: "Config \<Rightarrow> string" where
  "dataPath cfg = Join [dataEndpoint, replaceAll (Pkg (Opa cfg)) CHR ''.'' CHR ''/'', Rule (Opa cfg)]"

datatype logEncoding = Logfmt | JSON

record logger =
  encoding :: logEncoding
  filterLevel :: levelOption
  nameField :: "string option"

definition newLogger :: "Config \<Rightarrow> logger" where
  "newLogger cfg = \<lparr>encoding = (if LogFormat cfg = ''json'' then JSON else Logfmt),
     filterLevel = LogLevel cfg, nameField = (if Name cfg \<noteq> [] then Some (Name cfg) else None)\<rparr>"

text \<open>The cache: memcached when servers are given, in memory otherwise; only the latter collects metrics.\<close>

datatype ('i, 'c) cacheChoice =
    InMemory "'i Cacher" 'i
  | InMemcached "'c Cacher" 'c

definition newCache ::
  "respCodec \<Rightarrow> (ttlOptions \<Rightarrow> 'i ttlcache \<times> 'i) \<Rightarrow>
   (32 word \<Rightarrow> 32 word \<Rightarrow> string list \<Rightarrow> 'c mcache \<times> 'c) \<Rightarrow> Config \<Rightarrow> ('i, 'c) cacheChoice" where
  "newCache cd ttlcache_New memcached_New cfg =
     (if 0 < length (Servers (Memcached cfg))
      then (let (c, s) = NewMemached cd memcached_New (Interval (Memcached cfg)) (Expire (Memcached cfg))
                  (Servers (Memcached cfg))
            in InMemcached c s)
      else (let (c, s) = NewInMemoryCache cd ttlcache_New (Expire (Memcached cfg)) in InMemory c s))"

text \<open>The type assertion mc.(cache.CacherWithMetrics): only the in-memory cache has the methods of a collector.\<close>

fun withMetrics :: "('i, 'c) cacheChoice \<Rightarrow> bool" where
  "withMetrics (InMemory c s) = True"
| "withMetrics (InMemcached c s) = False"

text \<open>The instruments around the API server's client: a counter and a histogram, curried by client.\<close>

record instrument =
  instrName :: string
  instrHelp :: string
  instrLabels :: "string list"

definition requestCounter :: instrument where
  "requestCounter = \<lparr>instrName = ''client_api_requests_total'',
     instrHelp = ''A counter for requests from the wrapped client.'',
     instrLabels = [''code'', ''method'', ''client'']\<rparr>"

definition requestDuration :: instrument where
  "requestDuration = \<lparr>instrName = ''request_duration_seconds'',
     instrHelp = ''A histogram of request latencies.'', instrLabels = [''method'', ''client'']\<rparr>"

record roundTripper =
  curriedCounter :: "instrument \<times> (string \<times> string) list"
  curriedDuration :: "instrument \<times> (string \<times> string) list"

text \<open>The two instruments, and those registered: none without a registerer.\<close>

definition NewRoundTripperInstrumenter :: "bool \<Rightarrow> instrument list \<times> instrument list" where
  "NewRoundTripperInstrumenter registerer =
     (let ins = [requestCounter, requestDuration] in (ins, if registerer then ins else []))"

definition NewRoundTripper :: "string \<Rightarrow> roundTripper" where
  "NewRoundTripper name = \<lparr>curriedCounter = (requestCounter, [(''client'', name)]),
     curriedDuration = (requestDuration, [(''client'', name)])\<rparr>"

text \<open>The labels left after currying; the wrapping functions of promhttp accept code and method only.\<close>

definition freeLabels :: "instrument \<times> (string \<times> string) list \<Rightarrow> string list" where
  "freeLabels p = filter (\<lambda>l. l \<notin> set (map fst (snd p))) (instrLabels (fst p))"

text \<open>
  What main registers with the registry of Prometheus, in the order of the calls: the instruments of
  the handlers with their labels and the metrics of the health checks, which are those of the two
  libraries, the instruments above, and the collector of the in-memory cache, by its descriptions.
\<close>

datatype registration =
    HandlerInstruments "string list"
  | ClientInstrument instrument
  | HealthcheckMetrics
  | CacheCollector "Desc list"

definition registrations :: "('i, 'c) cacheChoice \<Rightarrow> registration list" where
  "registrations mc = [HandlerInstruments [''handler'']]
     @ map ClientInstrument (snd (NewRoundTripperInstrumenter True))
     @ [HealthcheckMetrics]
     @ (if withMetrics mc then [CacheCollector Describe] else [])"

section \<open>Servers and checks\<close>

record 'ver livenessCheck =
  checkURL :: string
  checkMethod :: string
  checkExpects :: nat
  checkTimeoutSeconds :: nat
  checkMinVersion :: 'ver
  checkRootCAs :: "string option"

text \<open>The options of the internal server's handler; the health checks are those added, by name.\<close>

datatype 'ver internalOption =
    WithName string
  | WithHealthchecks "(string \<times> 'ver livenessCheck) list"
  | WithPrometheusRegistry "registration list"
  | WithPProf

text \<open>The handler of a server: the mux with the data path, or the internal one.\<close>

datatype 'ver httpHandler = DataMux string | InternalHandler "'ver internalOption list"

record ('cert, 'ver, 'suite) http_Server =
  Addr :: string
  serverHandler :: "'ver httpHandler"
  serverTLS :: "('cert, 'ver, 'suite) tls_Config option"

record ('cert, 'ver, 'suite, 'i, 'c) mainEnv =
  mainQuoted :: "string \<Rightarrow> string"
  mainParse :: "flagValues \<Rightarrow> flagValues"
  mainMarkHidden :: "go_error option"
  mainTLS :: "('cert, 'ver, 'suite) tlsLib"
  os_ReadFile :: "string \<Rightarrow> go_error + string"
  mainCodec :: respCodec
  main_ttlcache_New :: "ttlOptions \<Rightarrow> 'i ttlcache \<times> 'i"
  main_memcached_New :: "32 word \<Rightarrow> 32 word \<Rightarrow> string list \<Rightarrow> 'c mcache \<times> 'c"

definition StatusNotFound :: nat where "StatusNotFound = 404"

definition newLivenessCheck ::
  "('cert, 'ver, 'suite) tlsLib \<Rightarrow> (string \<Rightarrow> go_error + string) \<Rightarrow> Config
   \<Rightarrow> 'ver livenessCheck option exit" where
  "newLivenessCheck lib readFile cfg =
     (if HealthcheckURL (Server cfg) = [] then Returned (Inr None)
      else
        (case TLSVersion lib (MinVersion (TLS cfg)) of
           Inl err \<Rightarrow> Fatal (''failed to read TLS min version: '' @ Error err)
         | Inr minVer \<Rightarrow>
             (let check = \<lparr>checkURL = HealthcheckURL (Server cfg), checkMethod = ''GET'',
                    checkExpects = StatusNotFound, checkTimeoutSeconds = 1,
                    checkMinVersion = minVer, checkRootCAs = None\<rparr>
              in if InternalServerCAFile (TLS cfg) \<noteq> [] then
                   (case readFile (InternalServerCAFile (TLS cfg)) of
                      Inl err \<Rightarrow>
                        Fatal (''failed to initialize healthcheck server TLS CA: '' @ Error err)
                    | Inr caCert \<Rightarrow> Returned (Inr (Some (check\<lparr>checkRootCAs := Some caCert\<rparr>))))
                 else Returned (Inr (Some check)))))"

definition healthchecks :: "'ver livenessCheck option \<Rightarrow> (string \<times> 'ver livenessCheck) list" where
  "healthchecks check = (case check of None \<Rightarrow> [] | Some c \<Rightarrow> [(''http'', c)])"

definition publicServer ::
  "('cert, 'ver, 'suite) tlsLib \<Rightarrow> Config \<Rightarrow> ('cert, 'ver, 'suite) http_Server exit" where
  "publicServer lib cfg =
     (case NewServerConfig lib (ServerCertFile (TLS cfg)) (ServerKeyFile (TLS cfg))
             (MinVersion (TLS cfg)) (CipherSuites (TLS cfg)) of
        Inl err \<Rightarrow> Fatal (Error err)
      | Inr tlsConfig \<Rightarrow>
          Returned (Inr \<lparr>Addr = Listen (Server cfg), serverHandler = DataMux (dataPath cfg),
            serverTLS = tlsConfig\<rparr>))"

definition internalServer ::
  "('cert, 'ver, 'suite) tlsLib \<Rightarrow> (string \<times> 'ver livenessCheck) list \<Rightarrow> registration list \<Rightarrow> Config
   \<Rightarrow> ('cert, 'ver, 'suite) http_Server exit" where
  "internalServer lib checks reg cfg =
     (case NewServerConfig lib (InternalServerCertFile (TLS cfg)) (InternalServerKeyFile (TLS cfg))
             (MinVersion (TLS cfg)) (CipherSuites (TLS cfg)) of
        Inl err \<Rightarrow> Fatal (Error err)
      | Inr tlsConfig \<Rightarrow>
          Returned (Inr \<lparr>Addr = ListenInternal (Server cfg),
            serverHandler = InternalHandler [WithName ''Internal - opa-openshift API'',
              WithHealthchecks checks, WithPrometheusRegistry reg, WithPProf],
            serverTLS = tlsConfig\<rparr>))"

text \<open>ListenAndServeTLS is chosen exactly when there is a TLS configuration.\<close>

datatype listening = ListenAndServe string | ListenAndServeTLS string

definition serve :: "('cert, 'ver, 'suite) http_Server \<Rightarrow> listening" where
  "serve s = (if serverTLS s \<noteq> None then ListenAndServeTLS (Addr s) else ListenAndServe (Addr s))"

text \<open>The actors of the run group, in the order they are added.\<close>

datatype ('cert, 'ver, 'suite) actor =
    SignalActor
  | ServerActor "('cert, 'ver, 'suite) http_Server"

record ('cert, 'ver, 'suite, 'i, 'c) program =
  progConfig :: Config
  progLogger :: logger
  progCache :: "('i, 'c) cacheChoice"
  progTransport :: roundTripper
  progMetrics :: "registration list"
  progCheck :: "'ver livenessCheck option"
  progActors :: "('cert, 'ver, 'suite) actor list"

text \<open>Sequencing of steps that may end the process.\<close>

fun andThen :: "'a exit \<Rightarrow> ('a \<Rightarrow> 'b exit) \<Rightarrow> 'b exit" where
  "andThen (Fatal msg) f = Fatal msg"
| "andThen (Returned (Inl err)) f = Fatal (Error err)"
| "andThen (Returned (Inr x)) f = f x"

definition main_start ::
  "('cert, 'ver, 'suite, 'i, 'c) mainEnv \<Rightarrow> ('cert, 'ver, 'suite, 'i, 'c) program exit" where
  "main_start env =
     andThen (ParseFlags (mainQuoted env) (mainParse env) (mainMarkHidden env)) (\<lambda>cfg.
     (let mc = newCache (mainCodec env) (main_ttlcache_New env) (main_memcached_New env) cfg
      in andThen (newLivenessCheck (mainTLS env) (os_ReadFile env) cfg) (\<lambda>check.
         andThen (publicServer (mainTLS env) cfg) (\<lambda>public.
         andThen (internalServer (mainTLS env) (healthchecks check) (registrations mc) cfg) (\<lambda>internal.
           Returned (Inr \<lparr>progConfig = cfg, progLogger = newLogger cfg, progCache = mc,
             progTransport = NewRoundTripper ''openshift'', progMetrics = registrations mc,
             progCheck = check,
             progActors = [SignalActor, ServerActor public, ServerActor internal]\<rparr>))))))"

text \<open>
  The whole of main: \<open>groupRun\<close> is the Run of the actor group, which returns the error of the actor
  that ended first.
\<close>

definition main_program ::
  "('cert, 'ver, 'suite, 'i, 'c) mainEnv \<Rightarrow> (('cert, 'ver, 'suite) actor list \<Rightarrow> go_error option) \<Rightarrow> unit exit" where
  "main_program env groupRun =
     andThen (main_start env) (\<lambda>prog.
       case groupRun (progActors prog) of
         Some err \<Rightarrow> Fatal (Error err)
       | None \<Rightarrow> Returned (Inr ()))"

section \<open>Lemmas\<close>

lemma andThen_Inr: "andThen x f = Returned (Inr y) \<longleftrightarrow> (\<exists>a. x = Returned (Inr a) \<and> f a = Returned (Inr y))"
  by (cases "(x, f)" rule: andThen.cases) auto

lemma split_append: "split c (x @ c # y) = split c x @ split c y"
  by (induction x) (auto split: list.splits)

lemma cleanElems_filter:
  "(\<And>e. e \<in> set es \<Longrightarrow> e = [] \<or> plainElem e) \<Longrightarrow>
   cleanElems rooted out es = rev out @ filter (\<lambda>e. e \<noteq> []) es"
proof (induction es arbitrary: out)
  case (Cons e es)
  then have "e = [] \<or> plainElem e" by simp
  with Cons.IH [of out] Cons.IH [of "e # out"] Cons.prems show ?case
    by (cases "e = []") (auto simp: plainElem_def)
qed simp

lemma isIdent_plainElem: "isIdent e \<Longrightarrow> plainElem e"
  using isIdent_notin [of e]
  by (auto simp: plainElem_def dot_def dotdot_def slash_def isIdent_def)

text \<open>The elements of the endpoint's path.\<close>

definition pathElems :: "Config \<Rightarrow> string list" where
  "pathElems cfg = [''v1'', ''data'']
     @ (if Pkg (Opa cfg) = [] then [] else split CHR ''.'' (Pkg (Opa cfg)))
     @ (if Rule (Opa cfg) = [] then [] else [Rule (Opa cfg)])"

lemma dataPath_elems:
  assumes pkg: "Pkg (Opa cfg) = [] \<or> list_all isIdent (split CHR ''.'' (Pkg (Opa cfg)))"
    and rule: "Rule (Opa cfg) = [] \<or> isIdent (Rule (Opa cfg))"
  shows "dataPath cfg = slash # join [slash] (pathElems cfg)"
proof -
  let ?pkg = "Pkg (Opa cfg)" and ?rule = "Rule (Opa cfg)"
  have noslash: "CHR ''/'' \<notin> set ?pkg"
  proof (cases "?pkg = []")
    case False
    with pkg have "\<forall>p \<in> set (split CHR ''.'' ?pkg). CHR ''/'' \<notin> set p"
      using isIdent_notin(2) by (auto simp: list_all_iff)
    then have "CHR ''/'' \<notin> set (join ''.'' (split CHR ''.'' ?pkg))"
      using set_join [of "''.''" "split CHR ''.'' ?pkg"] by auto
    then show ?thesis by (simp add: join_split)
  qed simp
  have elems: "split slash (join [slash] [dataEndpoint, replaceAll ?pkg CHR ''.'' CHR ''/'', ?rule])
      = [[], ''v1'', ''data''] @ split CHR ''.'' ?pkg @ split slash ?rule"
    using split_replaceAll [OF noslash, of "CHR ''.''"]
    by (simp add: dataEndpoint_def slash_def split_append)
  have ruleparts: "split slash ?rule = [?rule]"
    using rule isIdent_notin(2) by (auto simp: slash_def split_notin)
  have "filter (\<lambda>e. e \<noteq> []) ([[], ''v1'', ''data''] @ split CHR ''.'' ?pkg @ split slash ?rule) = pathElems cfg"
    using pkg ruleparts by (auto simp: pathElems_def list_all_iff isIdent_def filter_id_conv)
  moreover have "e = [] \<or> plainElem e"
    if "e \<in> set ([[], ''v1'', ''data''] @ split CHR ''.'' ?pkg @ split slash ?rule)" for e
    using that pkg rule ruleparts isIdent_plainElem
    by (auto simp: list_all_iff plainElem_def dot_def dotdot_def slash_def)
  ultimately have "cleanElems True [] ([[], ''v1'', ''data''] @ split CHR ''.'' ?pkg @ split slash ?rule)
      = pathElems cfg"
    using cleanElems_filter [of "[[], ''v1'', ''data''] @ split CHR ''.'' ?pkg @ split slash ?rule" True "[]"]
    by simp
  then show ?thesis
    unfolding dataPath_def Join_def using elems
    by (simp add: dataEndpoint_def Clean_def Let_def slash_def join_Cons del: join.simps)
qed

lemma ParseFlags_idents:
  assumes "ParseFlags quoted parse' mh = Returned (Inr cfg)"
  shows "Pkg (Opa cfg) = [] \<or> list_all isIdent (split CHR ''.'' (Pkg (Opa cfg)))"
    and "Rule (Opa cfg) = [] \<or> isIdent (Rule (Opa cfg))"
  using assms by (auto simp: ParseFlags_Inr Let_def flagConfig_def Match_validPackage Match_validRule)

lemma main_start_Inr:
  "main_start env = Returned (Inr prog) \<longleftrightarrow>
     (\<exists>cfg check public internal.
        ParseFlags (mainQuoted env) (mainParse env) (mainMarkHidden env) = Returned (Inr cfg)
        \<and> newLivenessCheck (mainTLS env) (os_ReadFile env) cfg = Returned (Inr check)
        \<and> publicServer (mainTLS env) cfg = Returned (Inr public)
        \<and> internalServer (mainTLS env) (healthchecks check) (registrations
              (newCache (mainCodec env) (main_ttlcache_New env) (main_memcached_New env) cfg)) cfg
            = Returned (Inr internal)
        \<and> prog = \<lparr>progConfig = cfg, progLogger = newLogger cfg,
            progCache = newCache (mainCodec env) (main_ttlcache_New env) (main_memcached_New env) cfg,
            progTransport = NewRoundTripper ''openshift'',
            progMetrics = registrations (newCache (mainCodec env) (main_ttlcache_New env) (main_memcached_New env) cfg),
            progCheck = check, progActors = [SignalActor, ServerActor public, ServerActor internal]\<rparr>)"
  by (auto simp: main_start_def andThen_Inr Let_def)

lemma registrations_newCache:
  "registrations (newCache cd ttl mcd cfg) =
     [HandlerInstruments [''handler''], ClientInstrument requestCounter, ClientInstrument requestDuration,
      HealthcheckMetrics] @ (if Servers (Memcached cfg) = [] then [CacheCollector Describe] else [])"
  by (simp add: registrations_def newCache_def NewRoundTripperInstrumenter_def Let_def split: prod.split)

text \<open>The metrics the program names itself have different names.\<close>

lemma ownMetrics_distinct: "distinct (map instrName [requestCounter, requestDuration] @ map fqName Describe)"
  by (simp add: requestCounter_def requestDuration_def Describe_def cache_metric_defs)

lemma newLivenessCheck_Inr:
  "newLivenessCheck lib readFile cfg = Returned (Inr check) \<Longrightarrow>
   (case check of
      None \<Rightarrow> HealthcheckURL (Server cfg) = []
    | Some c \<Rightarrow> HealthcheckURL (Server cfg) \<noteq> [] \<and> checkURL c = HealthcheckURL (Server cfg)
        \<and> checkMethod c = ''GET'' \<and> checkExpects c = 404
        \<and> TLSVersion lib (MinVersion (TLS cfg)) = Inr (checkMinVersion c)
        \<and> (case checkRootCAs c of
             None \<Rightarrow> InternalServerCAFile (TLS cfg) = []
           | Some ca \<Rightarrow> readFile (InternalServerCAFile (TLS cfg)) = Inr ca))"
  by (auto simp: newLivenessCheck_def StatusNotFound_def Let_def split: if_splits sum.splits)

lemma NewServerConfig_None:
  "NewServerConfig lib cert key ver suites = Inr t \<Longrightarrow> t = None \<longleftrightarrow> cert = [] \<and> key = []"
  by (auto simp: NewServerConfig_def split: if_splits sum.splits)

lemma publicServer_Inr:
  "publicServer lib cfg = Returned (Inr srv) \<Longrightarrow>
   Addr srv = Listen (Server cfg) \<and> serverHandler srv = DataMux (dataPath cfg)
   \<and> (serverTLS srv = None \<longleftrightarrow> ServerCertFile (TLS cfg) = [] \<and> ServerKeyFile (TLS cfg) = [])"
  by (auto simp: publicServer_def split: sum.splits dest: NewServerConfig_None)

lemma internalServer_Inr:
  "internalServer lib checks reg cfg = Returned (Inr srv) \<Longrightarrow>
   Addr srv = ListenInternal (Server cfg)
   \<and> serverHandler srv = InternalHandler [WithName ''Internal - opa-openshift API'',
        WithHealthchecks checks, WithPrometheusRegistry reg, WithPProf]
   \<and> (serverTLS srv = None \<longleftrightarrow> InternalServerCertFile (TLS cfg) = [] \<and> InternalServerKeyFile (TLS cfg) = [])"
  by (auto simp: internalServer_def split: sum.splits dest: NewServerConfig_None)

section \<open>Properties\<close>

text \<open>An environment whose TLS library takes any file, version and suite.\<close>

definition exampleMainEnv :: "(string, string, string, string \<rightharpoonup> string, string \<rightharpoonup> string) mainEnv" where
  "exampleMainEnv = \<lparr>mainQuoted = exampleQuoted,
     mainParse = (\<lambda>v. exampleFlags v\<lparr>tls_server_cert_file := ''tls.crt'', tls_server_key_file := ''tls.key''\<rparr>),
     mainMarkHidden = None,
     mainTLS = \<lparr>LoadX509KeyPair = (\<lambda>c k. Inr c), TLSVersion = Inr, TLSCipherSuites = Inr\<rparr>,
     os_ReadFile = Inr, mainCodec = opaCodec, main_ttlcache_New = (\<lambda>opts. (mapTtlcache, Map.empty)),
     main_memcached_New = (\<lambda>i e s. (mapMcache, Map.empty))\<rparr>"

lemma exampleMain_starts: "\<exists>prog. main_start exampleMainEnv = Returned (Inr prog)"
proof -
  have "Match validPackage ''lokistack''" "Match validRule ''allow''"
    unfolding Match_validPackage Match_validRule
    by (simp_all add: isIdent_def inClass_def startClass_def wordClass_def less_eq_char_def)
  then show ?thesis
    by (simp add: main_start_def exampleMainEnv_def ParseFlags_def exampleFlags_def flagDefaults_def
        parseLogLevel_def flagConfig_def newLivenessCheck_def publicServer_def internalServer_def
        NewServerConfig_def Let_def)
qed

text \<open>
  C21: the endpoint's path. In a program that starts, the data handler is served at /v1/data
  followed by the parts of the package, which the dots of --opa.package separate, and by the rule,
  each after one slash; nothing in the flags can make path.Join clean any of it away, climb up or
  end in a slash.
\<close>

theorem dataPath_of_flags:
  assumes "ParseFlags quoted pflag_Parse mh = Returned (Inr cfg)"
  shows "dataPath cfg = concat (map (\<lambda>e. ''/'' @ e) ([''v1'', ''data'']
       @ (if Pkg (Opa cfg) = [] then [] else split CHR ''.'' (Pkg (Opa cfg)))
       @ (if Rule (Opa cfg) = [] then [] else [Rule (Opa cfg)])))"
proof -
  have "slash # join [slash] (e # es) = concat (map (\<lambda>e. ''/'' @ e) (e # es))" for e es
    by (simp add: join_concat slash_def)
  then show ?thesis
    unfolding dataPath_elems [OF ParseFlags_idents [OF assms]] pathElems_def by simp
qed

theorem dataPath_of_flags_witness:
  "\<exists>cfg. ParseFlags exampleQuoted exampleFlags None = Returned (Inr cfg)
     \<and> dataPath cfg = ''/v1/data/lokistack/allow''"
proof -
  obtain cfg where cfg: "ParseFlags exampleQuoted exampleFlags None = Returned (Inr cfg)"
    using exampleFlags_accepted by blast
  then have "Pkg (Opa cfg) = ''lokistack''" "Rule (Opa cfg) = ''allow''"
    by (auto simp: ParseFlags_Inr Let_def flagConfig_def exampleFlags_def flagDefaults_def)
  with dataPath_of_flags [OF cfg] cfg show ?thesis by simp
qed

text \<open>
  C19: what a start-up that succeeds has set up. The actors are the signal handler and the two
  servers. The public server serves the mux with the data path; the internal one
  serves the internal handler, with its name, the liveness check if one is configured, the registry
  and the profiler. Each has the configured address and uses TLS unless both of its files are unset,
  and never falls back to plain HTTP because of an error. The registry holds, in this order, the
  instruments of the handlers, the counter and the histogram of the API server's client, the metrics
  of the health checks and, exactly when the cache is in memory, which is when no memcached server is
  configured, the collector of the cache. The check asks the configured URL with GET and expects 404,
  and trusts the configured CA file when there is one.
\<close>

theorem main_start_servers:
  assumes "main_start env = Returned (Inr prog)"
  shows "\<exists>public internal. progActors prog = [SignalActor, ServerActor public, ServerActor internal]
    \<and> serverHandler public = DataMux (dataPath (progConfig prog))
    \<and> serverHandler internal = InternalHandler [WithName ''Internal - opa-openshift API'',
         WithHealthchecks (case progCheck prog of None \<Rightarrow> [] | Some c \<Rightarrow> [(''http'', c)]),
         WithPrometheusRegistry (progMetrics prog), WithPProf]
    \<and> serve public = (if ServerCertFile (TLS (progConfig prog)) = [] \<and> ServerKeyFile (TLS (progConfig prog)) = []
        then ListenAndServe (Listen (Server (progConfig prog)))
        else ListenAndServeTLS (Listen (Server (progConfig prog))))
    \<and> serve internal = (if InternalServerCertFile (TLS (progConfig prog)) = []
          \<and> InternalServerKeyFile (TLS (progConfig prog)) = []
        then ListenAndServe (ListenInternal (Server (progConfig prog)))
        else ListenAndServeTLS (ListenInternal (Server (progConfig prog))))
    \<and> (withMetrics (progCache prog) \<longleftrightarrow> Servers (Memcached (progConfig prog)) = [])
    \<and> progMetrics prog = [HandlerInstruments [''handler''], ClientInstrument requestCounter,
         ClientInstrument requestDuration, HealthcheckMetrics]
         @ (if Servers (Memcached (progConfig prog)) = [] then [CacheCollector Describe] else [])
    \<and> (case progCheck prog of
         None \<Rightarrow> HealthcheckURL (Server (progConfig prog)) = []
       | Some c \<Rightarrow> HealthcheckURL (Server (progConfig prog)) \<noteq> []
           \<and> checkURL c = HealthcheckURL (Server (progConfig prog))
           \<and> checkMethod c = ''GET'' \<and> checkExpects c = 404
           \<and> TLSVersion (mainTLS env) (MinVersion (TLS (progConfig prog))) = Inr (checkMinVersion c)
           \<and> (case checkRootCAs c of
                None \<Rightarrow> InternalServerCAFile (TLS (progConfig prog)) = []
              | Some ca \<Rightarrow> os_ReadFile env (InternalServerCAFile (TLS (progConfig prog))) = Inr ca))"
proof -
  from assms obtain cfg check public internal where p:
    "newLivenessCheck (mainTLS env) (os_ReadFile env) cfg = Returned (Inr check)"
    "publicServer (mainTLS env) cfg = Returned (Inr public)"
    "internalServer (mainTLS env) (healthchecks check) (registrations
       (newCache (mainCodec env) (main_ttlcache_New env) (main_memcached_New env) cfg)) cfg = Returned (Inr internal)"
    and prog: "prog = \<lparr>progConfig = cfg, progLogger = newLogger cfg,
       progCache = newCache (mainCodec env) (main_ttlcache_New env) (main_memcached_New env) cfg,
       progTransport = NewRoundTripper ''openshift'',
       progMetrics = registrations (newCache (mainCodec env) (main_ttlcache_New env) (main_memcached_New env) cfg),
       progCheck = check, progActors = [SignalActor, ServerActor public, ServerActor internal]\<rparr>"
    by (auto simp: main_start_Inr)
  have cache: "withMetrics (newCache (mainCodec env) (main_ttlcache_New env) (main_memcached_New env) cfg)
      \<longleftrightarrow> Servers (Memcached cfg) = []"
    by (simp add: newCache_def split: prod.split)
  show ?thesis
    unfolding prog program.simps
    by (intro exI [of _ public] exI [of _ internal] conjI)
      (use publicServer_Inr [OF p(2)] internalServer_Inr [OF p(3)] newLivenessCheck_Inr [OF p(1)] cache in
        \<open>simp_all add: serve_def healthchecks_def registrations_newCache\<close>)
qed

theorem main_start_servers_witness:
  "\<exists>prog public internal c. main_start exampleMainEnv = Returned (Inr prog)
     \<and> progActors prog = [SignalActor, ServerActor public, ServerActor internal]
     \<and> serve public = ListenAndServeTLS '':8080'' \<and> serve internal = ListenAndServe '':8081''
     \<and> serverHandler internal = InternalHandler [WithName ''Internal - opa-openshift API'', WithHealthchecks [(''http'', c)],
          WithPrometheusRegistry [HandlerInstruments [''handler''], ClientInstrument requestCounter,
            ClientInstrument requestDuration, HealthcheckMetrics, CacheCollector Describe], WithPProf]
     \<and> checkURL c = ''http://localhost:8080''"
proof -
  obtain prog where prog: "main_start exampleMainEnv = Returned (Inr prog)"
    using exampleMain_starts by blast
  then obtain ll ms where "progConfig prog = flagConfig (mainParse exampleMainEnv flagDefaults) ll ms"
    by (auto simp: main_start_Inr ParseFlags_Inr Let_def)
  then have "ServerCertFile (TLS (progConfig prog)) = ''tls.crt''" "Listen (Server (progConfig prog)) = '':8080''"
    "ListenInternal (Server (progConfig prog)) = '':8081''"
    "InternalServerCertFile (TLS (progConfig prog)) = []" "InternalServerKeyFile (TLS (progConfig prog)) = []"
    "HealthcheckURL (Server (progConfig prog)) = ''http://localhost:8080''"
    "Servers (Memcached (progConfig prog)) = []"
    by (simp_all add: flagConfig_def exampleMainEnv_def exampleFlags_def flagDefaults_def)
  with main_start_servers [OF prog] prog show ?thesis by (auto split: option.splits)
qed

text \<open>
  The instruments fit. After the client label is curried, the counter is left with the
  labels code and method and the histogram with method, which are the only ones the round
  trippers of promhttp accept; the two have different names.
\<close>

lemma NewRoundTripper_labels:
  "freeLabels (curriedCounter (NewRoundTripper name)) = [''code'', ''method'']
   \<and> freeLabels (curriedDuration (NewRoundTripper name)) = [''method'']
   \<and> distinct (map instrName (fst (NewRoundTripperInstrumenter registerer)))"
  by (simp add: freeLabels_def NewRoundTripper_def requestCounter_def requestDuration_def
      NewRoundTripperInstrumenter_def Let_def)

end
