(* ===== verification/Response_Types.thy ===== *)
theory Response_Types
  imports Handler
begin

text \<open>
  The shape of what clients are sent: a response is a boolean, or an object with the texts allowed
  and data, where data is the JSON of matchers. An error of the authorizer has one of the statuses
  the handler knows. Nothing is assumed of labels.NewMatcher, the API server or the cache.
\<close>

definition responseType :: "DataResponseV1 \<Rightarrow> bool" where
  "responseType res \<longleftrightarrow>
     (case Result res of
        Some (JBool b) \<Rightarrow> True
      | Some (JObj ms) \<Rightarrow> \<exists>allowed x.
          ms = [(''allowed'', JStr allowed), (''data'', JStr (render (authzResponseDataJson x)))]
          \<and> allowed \<in> {''true'', ''false''}
      | _ \<Rightarrow> False)"

definition booleanResponse :: "DataResponseV1 \<Rightarrow> bool" where
  "booleanResponse res \<longleftrightarrow> (case Result res of Some (JBool b) \<Rightarrow> True | _ \<Rightarrow> False)"

text \<open>The type of a result: of a response, or of the status of an error.\<close>

definition resultType :: "go_error + DataResponseV1 \<Rightarrow> bool" where
  "resultType r \<longleftrightarrow> (case r of Inr res \<Rightarrow> responseType res | Inl err \<Rightarrow> errorStatus err \<in> {401, 500})"

lemma resultType_simps [simp]:
  "resultType (Inr res) \<longleftrightarrow> responseType res"
  "resultType (Inl (StatusCodeError err sc)) \<longleftrightarrow> sc \<in> {401, 500}"
  by (simp_all add: resultType_def errorStatus_def)

lemma responseType_minimal [simp]:
  "responseType (minimalDataResponseV1 b)" "booleanResponse (minimalDataResponseV1 b)"
  by (simp_all add: responseType_def booleanResponse_def minimalDataResponseV1_def)

lemma resultType_newDataResponseV1: "resultType (newDataResponseV1 nm ns m)"
proof (cases "newDataResponseV1 nm ns m")
  case (Inl err)
  then show ?thesis
    using newDataResponseV1_error [OF Inl] by (simp add: resultType_def errorStatus_def status_defs)
next
  case (Inr res)
  then have "responseType res"
    by (auto simp: newDataResponseV1_def Marshal_def Let_def responseType_def minimalDataResponseV1_def
        split: if_splits sum.splits)
  with Inr show ?thesis by simp
qed

lemma resultType_reviewNamespaces:
  "reviewNamespaces rv s acc nss = (Inl err, s') \<Longrightarrow> resultType (Inl err)"
  using reviewNamespaces_status by (auto simp: resultType_def)

lemma resultType_authorizeNamespaced:
  "resultType (fst (authorizeNamespaced nm a s user groups verb res rnm grp nss))"
proof -
  have "responseType r" if "newDataResponseV1 nm ns m = Inr r" for ns m r
    using resultType_newDataResponseV1 [of nm ns m] that by simp
  then show ?thesis
    by (auto simp: authorizeNamespaced_def status_defs split: sum.splits prod.splits
        dest: resultType_reviewNamespaces)
qed

lemma resultType_authorizeClusterWide: "resultType (fst (authorizeClusterWide nm a s nss))"
  using resultType_newDataResponseV1
  by (auto simp: authorizeClusterWide_def Let_def status_defs split: sum.splits prod.splits)

lemma resultType_authorizeInner:
  "resultType (fst (authorizeInner nm a s user groups verb res rnm grp nss md))"
  using resultType_authorizeNamespaced resultType_authorizeClusterWide
  by (auto simp: authorizeInner_def status_defs split: sum.splits prod.splits)

lemma authorizeInner_create:
  "authorizeInner nm a s user groups CreateVerb res rnm grp nss md = (Inr x, s') \<Longrightarrow> booleanResponse x"
  by (auto simp: authorizeInner_def split: sum.splits prod.splits)

text \<open>
  C13: the type of an answer. Whatever the API server says, authorizeInner returns a response
  that is a boolean or an object with exactly the members allowed, which is the text true or false,
  and data, which is the JSON text of matchers; for a create request it is a boolean. Otherwise it
  returns an error that the handler turns into status 401 or 500.
\<close>

theorem authorizeInner_typed:
  "case fst (authorizeInner nm a s user groups verb res rnm grp nss md) of
     Inr resp \<Rightarrow> if verb = CreateVerb then booleanResponse resp else responseType resp
   | Inl err \<Rightarrow> errorStatus err \<in> {401, 500}"
proof -
  obtain r s' where run: "authorizeInner nm a s user groups verb res rnm grp nss md = (r, s')"
    by (metis surj_pair)
  with resultType_authorizeInner [of nm a s user groups verb res rnm grp nss md]
    authorizeInner_create [of nm a s user groups res rnm grp nss md] show ?thesis
    by (auto simp: resultType_def split: sum.splits)
qed

end
