(* ===== verification/Interaction.thy ===== *)
theory Interaction
  imports Authorizer_Spec "HOL-Library.Sublist"
begin

text \<open>
  authorizeInner cut at its calls of the API server (internal/authorizer/authorizer.go). An
  \<open>interaction\<close> is what is left to do: it is done, or it has sent one call and continues with the
  answer, which may never come. \<open>runI\<close> answers the calls at once, by a client; then the result is that
  of authorizeInner (\<open>runI_authorizeInner\<close>), so the two are the same code.
\<close>

section \<open>The code in pieces\<close>

datatype interaction =
    Done "go_error + DataResponseV1"
  | AskReview string "go_error + bool \<Rightarrow> interaction"
  | AskList "go_error + string list \<Rightarrow> interaction"

definition authorizeClusterWideI :: "newMatcher \<Rightarrow> Matcher \<Rightarrow> string list \<Rightarrow> interaction" where
  "authorizeClusterWideI nm m namespaces =
     (if IsEmpty m then Done (Inr (minimalDataResponseV1 True))
      else AskList (\<lambda>x. case x of
         Inl err \<Rightarrow>
           Done (Inl (StatusCodeError (wrapf ''failed to access api server'' err) StatusUnauthorized))
       | Inr nsList \<Rightarrow>
           if length namespaces = 0 then Done (newDataResponseV1 nm nsList m)
           else
             (let nsMap = foldl (\<lambda>m ns. m(ns \<mapsto> True)) Map.empty nsList;
                  filtered = filterListed nsMap [] namespaces
              in Done (newDataResponseV1 nm filtered m))))"

fun reviewNamespacesI :: "(string list \<Rightarrow> interaction) \<Rightarrow> string list \<Rightarrow> string list \<Rightarrow> interaction" where
  "reviewNamespacesI k allowed [] = k allowed"
| "reviewNamespacesI k allowed (ns # nss) = AskReview ns (\<lambda>x. case x of
      Inl err \<Rightarrow> Done (Inl (StatusCodeError (wrapf ''namespaced SAR failed'' err) StatusUnauthorized))
    | Inr nsAllowed \<Rightarrow> reviewNamespacesI k (if nsAllowed then allowed @ [ns] else allowed) nss)"

definition answerNamespaced :: "newMatcher \<Rightarrow> Matcher \<Rightarrow> string list \<Rightarrow> interaction" where
  "answerNamespaced nm m allowed =
     (if length allowed = 0 then Done (Inr (minimalDataResponseV1 False))
      else
        (case newDataResponseV1 nm allowed m of
           Inl err \<Rightarrow> Done (Inl (StatusCodeError (wrapf ''failed to create auth response'' err)
             StatusInternalServerError))
         | Inr res \<Rightarrow> Done (Inr res)))"

definition authorizeNamespacedI :: "newMatcher \<Rightarrow> Matcher \<Rightarrow> string list \<Rightarrow> interaction" where
  "authorizeNamespacedI nm m namespaces = reviewNamespacesI (answerNamespaced nm m) [] namespaces"

definition authorizeInnerI ::
  "newMatcher \<Rightarrow> Matcher \<Rightarrow> string \<Rightarrow> string list \<Rightarrow> bool \<Rightarrow> interaction" where
  "authorizeInnerI nm m verb namespaces metadataOnly = AskReview [] (\<lambda>x. case x of
       Inl err \<Rightarrow> Done (Inl (StatusCodeError (wrapf ''cluster-wide SAR failed'' err) StatusUnauthorized))
     | Inr clusterAllow \<Rightarrow>
         if verb = CreateVerb then Done (Inr (minimalDataResponseV1 clusterAllow))
         else if clusterAllow then authorizeClusterWideI nm m namespaces
         else if metadataOnly \<and> length namespaces = 0 then
           AskList (\<lambda>y. case y of
              Inl err \<Rightarrow>
                Done (Inl (StatusCodeError (wrapf ''failed to access api server'' err) StatusUnauthorized))
            | Inr nsList \<Rightarrow>
                if length nsList = 0 then Done (Inr (minimalDataResponseV1 False))
                else authorizeNamespacedI nm m nsList)
         else authorizeNamespacedI nm m namespaces)"

section \<open>The same code\<close>

primrec runI ::
  "('s \<Rightarrow> string \<Rightarrow> (go_error + bool) \<times> 's) \<Rightarrow> ('s \<Rightarrow> (go_error + string list) \<times> 's) \<Rightarrow> interaction \<Rightarrow> 's
   \<Rightarrow> (go_error + DataResponseV1) \<times> 's" where
  "runI review ls (Done r) s = (r, s)"
| "runI review ls (AskReview ns k) s = (case review s ns of (x, s') \<Rightarrow> runI review ls (k x) s')"
| "runI review ls (AskList k) s = (case ls s of (x, s') \<Rightarrow> runI review ls (k x) s')"

lemma runI_reviewNamespaces:
  "runI review ls (reviewNamespacesI k allowed nss) s =
     (case reviewNamespaces review s allowed nss of
        (Inl err, s') \<Rightarrow> (Inl err, s')
      | (Inr allowed', s') \<Rightarrow> runI review ls (k allowed') s')"
proof (induction nss arbitrary: allowed s)
  case (Cons ns nss)
  obtain x s' where "review s ns = (x, s')" by fastforce
  with Cons show ?case by (cases x) auto
qed simp

lemma runI_authorizeNamespaced:
  "runI (\<lambda>s ns. AccessReview (client a) s user groups verb res rnm grp ns) (ListNamespaces (client a))
     (authorizeNamespacedI nm (matcher a) nss) s
   = authorizeNamespaced nm a s user groups verb res rnm grp nss"
  unfolding authorizeNamespacedI_def runI_reviewNamespaces authorizeNamespaced_def answerNamespaced_def
  by (auto split: prod.splits sum.splits)

lemma runI_authorizeClusterWide:
  "runI review (ListNamespaces (client a)) (authorizeClusterWideI nm (matcher a) nss) s
   = authorizeClusterWide nm a s nss"
  by (auto simp: authorizeClusterWideI_def authorizeClusterWide_def Let_def split: prod.splits sum.splits)

lemma runI_authorizeInner:
  "runI (\<lambda>s ns. AccessReview (client a) s user groups verb res rnm grp ns) (ListNamespaces (client a))
     (authorizeInnerI nm (matcher a) verb nss md) s
   = authorizeInner nm a s user groups verb res rnm grp nss md"
  by (auto simp: authorizeInnerI_def authorizeInner_def runI_authorizeNamespaced runI_authorizeClusterWide
      split: prod.splits sum.splits)

section \<open>Recorded calls\<close>

text \<open>What is left of an interaction after some recorded calls; \<open>q n x\<close> is the review of n with answer x.\<close>

fun answerI :: "(string \<Rightarrow> go_error + bool \<Rightarrow> apiCall) \<Rightarrow> interaction \<Rightarrow> apiCall \<Rightarrow> interaction option" where
  "answerI q (AskReview ns k) (Reviewed user groups verb res rnm grp ns' x) =
     (if q ns x = Reviewed user groups verb res rnm grp ns' x then Some (k x) else None)"
| "answerI q (AskList k) (Listed x) = Some (k x)"
| "answerI q p e = None"

fun afterI :: "(string \<Rightarrow> go_error + bool \<Rightarrow> apiCall) \<Rightarrow> interaction \<Rightarrow> apiCall list \<Rightarrow> interaction option" where
  "afterI q p [] = Some p"
| "afterI q p (e # es) = (case answerI q p e of None \<Rightarrow> None | Some p' \<Rightarrow> afterI q p' es)"

lemma afterI_snoc:
  "afterI q p (es @ [e]) = (case afterI q p es of None \<Rightarrow> None | Some p' \<Rightarrow> answerI q p' e)"
  by (induction es arbitrary: p) (auto split: option.splits)

text \<open>A client that gives the recorded answers to the recorded calls, in order.\<close>

definition unexpectedCall :: go_error where "unexpectedCall = Errorf ''unexpected call''"

definition answering :: "apiCall list Client" where
  "answering =
     \<lparr>AccessReview = (\<lambda>es user groups verb res rnm grp ns.
        case es of
          Reviewed user' groups' verb' res' rnm' grp' ns' x # es' \<Rightarrow>
            if Reviewed user groups verb res rnm grp ns x = Reviewed user' groups' verb' res' rnm' grp' ns' x
            then (x, es') else (Inl unexpectedCall, es)
        | _ \<Rightarrow> (Inl unexpectedCall, es)),
      ListNamespaces = (\<lambda>es. case es of Listed x # es' \<Rightarrow> (x, es') | _ \<Rightarrow> (Inl unexpectedCall, es))\<rparr>"

lemma answerI_cases:
  assumes "answerI q p e = Some p'"
  obtains (review) ns k x where "p = AskReview ns k" "e = q ns x" "p' = k x"
  | (list) k x where "p = AskList k" "e = Listed x" "p' = k x"
proof (cases "(q, p, e)" rule: answerI.cases)
  case (1 q' ns k user groups verb res rnm grp ns' x)
  with assms have e: "e = q ns x" and "p' = k x" by (simp_all split: if_splits)
  with 1 review [OF _ e] show thesis by simp
next
  case (2 q' k x)
  with assms list [of k x] show thesis by simp
qed (use assms in simp_all)

lemma runI_recorded:
  assumes "afterI (Reviewed user groups verb res rnm grp) p es = Some (Done r)"
  shows "runI (\<lambda>st ns. AccessReview (logged answering) st user groups verb res rnm grp ns)
    (ListNamespaces (logged answering)) p (es, l) = (r, [], l @ es)"
  using assms
proof (induction es arbitrary: p l)
  case Nil
  then show ?case by simp
next
  case (Cons e es)
  then obtain p' where p': "answerI (Reviewed user groups verb res rnm grp) p e = Some p'"
    and rest: "afterI (Reviewed user groups verb res rnm grp) p' es = Some (Done r)"
    by (auto split: option.splits)
  from p' show ?case
  proof (cases rule: answerI_cases)
    case (review ns k x)
    then have "AccessReview (logged answering) (e # es, l) user groups verb res rnm grp ns = (x, es, l @ [e])"
      by (simp add: logged_AccessReview answering_def)
    with review Cons.IH [OF rest, of "l @ [e]"] show ?thesis by simp
  next
    case (list k x)
    then have "ListNamespaces (logged answering) (e # es, l) = (x, es, l @ [e])"
      by (simp add: logged_ListNamespaces answering_def)
    with list Cons.IH [OF rest, of "l @ [e]"] show ?thesis by simp
  qed
qed

text \<open>The result of an interaction that ended is that of authorizeInner on the recorded answers.\<close>

lemma afterI_authorizeInner_logged:
  assumes "afterI (Reviewed user groups verb res rnm grp) (authorizeInnerI nm m verb nss md) es = Some (Done r)"
  shows "authorizeInner nm (New (logged answering) cc m) (es, []) user groups verb res rnm grp nss md
    = (r, [], es)"
  using runI_recorded [OF assms, of "[]"]
    runI_authorizeInner [of "New (logged answering) cc m" user groups verb res rnm grp nm nss md "(es, [])"]
  by (simp add: New_def)

lemma afterI_backed:
  assumes "newMatcherContract nm"
    and "afterI (Reviewed user groups verb res rnm grp) (authorizeInnerI nm m verb nss md) es = Some (Done r)"
  shows "authorizeInner nm (New answering cc m) es user groups verb res rnm grp nss md = (r, [])"
    and "r = Inr resp \<Longrightarrow> \<exists>d. resp = encodeDecision d \<and> backed (Reviewed user groups verb res rnm grp) m es d"
proof -
  from authorizeInner_logged [OF assms(1), of user groups verb res rnm grp m "[]" answering cc es nss md]
    afterI_authorizeInner_logged [OF assms(2), of cc]
  show "authorizeInner nm (New answering cc m) es user groups verb res rnm grp nss md = (r, [])"
    and "r = Inr resp \<Longrightarrow> \<exists>d. resp = encodeDecision d \<and> backed (Reviewed user groups verb res rnm grp) m es d"
    by (auto simp: tracedRun_def)
qed

section \<open>Recording changes nothing\<close>

lemma runI_logged:
  "\<exists>es. runI (\<lambda>st ns. AccessReview (logged cl) st user groups verb res rnm grp ns)
          (ListNamespaces (logged cl)) p (s, l)
     = (let (r, s') = runI (\<lambda>s ns. AccessReview cl s user groups verb res rnm grp ns) (ListNamespaces cl) p s
        in (r, s', l @ es))"
proof (induction p arbitrary: s l)
  case (AskReview ns k)
  obtain x s1 where x: "AccessReview cl s user groups verb res rnm grp ns = (x, s1)" by fastforce
  let ?e = "Reviewed user groups verb res rnm grp ns x"
  have "AccessReview (logged cl) (s, l) user groups verb res rnm grp ns = (x, s1, l @ [?e])"
    using x by (simp add: logged_AccessReview)
  with x AskReview.IH [OF rangeI, of x s1 "l @ [?e]"] show ?case
    by (auto simp: Let_def split: prod.splits)
next
  case (AskList k)
  obtain x s1 where x: "ListNamespaces cl s = (x, s1)" by fastforce
  have "ListNamespaces (logged cl) (s, l) = (x, s1, l @ [Listed x])"
    using x by (simp add: logged_ListNamespaces)
  with x AskList.IH [OF rangeI, of x s1 "l @ [Listed x]"] show ?case
    by (auto simp: Let_def split: prod.splits)
qed simp

lemma afterI_authorizeInner:
  assumes "afterI (Reviewed user groups verb res rnm grp) (authorizeInnerI nm m verb nss md) es = Some (Done r)"
  shows "authorizeInner nm (New answering cc m) es user groups verb res rnm grp nss md = (r, [])"
  using runI_logged [of answering user groups verb res rnm grp "authorizeInnerI nm m verb nss md" es "[]"]
    runI_recorded [OF assms, of "[]"]
    runI_authorizeInner [of "New answering cc m" user groups verb res rnm grp nm nss md es]
  by (cases "authorizeInner nm (New answering cc m) es user groups verb res rnm grp nss md")
    (auto simp: New_def)

section \<open>The plan of the calls\<close>

fun reviewedIn :: "apiCall \<Rightarrow> string list" where
  "reviewedIn (Reviewed user groups verb res rnm grp ns x) = [ns]"
| "reviewedIn (Listed x) = []"

fun isListed :: "apiCall \<Rightarrow> bool" where
  "isListed (Listed x) \<longleftrightarrow> True"
| "isListed e \<longleftrightarrow> False"

text \<open>
  The namespaces reviewed are, in order and each once, the cluster scope and then candidates: those
  requested, or those listed for a metadata request that names none. There is at most one list, and
  nothing is asked after a call that failed.
\<close>

definition plannedCalls ::
  "(string \<Rightarrow> go_error + bool \<Rightarrow> apiCall) \<Rightarrow> string \<Rightarrow> string list \<Rightarrow> bool \<Rightarrow> apiCall list \<Rightarrow> bool" where
  "plannedCalls q verb nss md es \<longleftrightarrow>
     (\<forall>e \<in> set es. (\<exists>ns x. e = q ns x) \<or> isListed e)
     \<and> (\<exists>candidates. (candidates = nss \<or> md \<and> nss = [] \<and> Listed (Inr candidates) \<in> set es)
          \<and> prefix (concat (map reviewedIn es)) ([] # candidates)
          \<and> length es \<le> 2 + length candidates)
     \<and> length (filter isListed es) \<le> 1
     \<and> (\<forall>e \<in> set (butlast es). \<not> failedCall e)
     \<and> (verb = CreateVerb \<longrightarrow> length es \<le> 1)"

lemma afterI_Done: "afterI q (Done r) es = Some p \<longleftrightarrow> es = [] \<and> p = Done r"
  by (cases es) auto

lemma reviewNamespacesI_calls:
  assumes "q = Reviewed user groups verb res rnm grp" "\<And>al. \<exists>r. k al = Done r"
    and "afterI q (reviewNamespacesI k acc nss) es = Some p"
  shows "prefix (concat (map reviewedIn es)) nss \<and> (\<forall>e \<in> set es. \<exists>ns x. e = q ns x)
    \<and> (\<forall>e \<in> set (butlast es). \<not> failedCall e)"
  using assms(3)
proof (induction nss arbitrary: acc es)
  case Nil
  obtain r where "k acc = Done r" using assms(2) by blast
  with Nil show ?case by (simp add: afterI_Done)
next
  case (Cons n nss)
  show ?case
  proof (cases es)
    case (Cons e es')
    with Cons.prems obtain p' where p': "answerI q (reviewNamespacesI k acc (n # nss)) e = Some p'"
      and rest: "afterI q p' es' = Some p" by (auto split: option.splits)
    from p' obtain x where e: "e = q n x" and px: "p' = (case x of
        Inl err \<Rightarrow> Done (Inl (StatusCodeError (wrapf ''namespaced SAR failed'' err) StatusUnauthorized))
      | Inr ok \<Rightarrow> reviewNamespacesI k (if ok then acc @ [n] else acc) nss)"
      by (cases rule: answerI_cases) auto
    show ?thesis
    proof (cases x)
      case (Inl err)
      with rest px Cons e assms(1) show ?thesis by (auto simp: afterI_Done)
    next
      case (Inr ok)
      with rest px have "afterI q (reviewNamespacesI k (if ok then acc @ [n] else acc) nss) es' = Some p"
        by simp
      from Cons.IH [OF this] Cons e assms(1) Inr show ?thesis by auto
    qed
  qed simp
qed

lemma authorizeNamespacedI_calls:
  assumes "q = Reviewed user groups verb res rnm grp"
    and "afterI q (authorizeNamespacedI nm m nss) es = Some p"
  shows "prefix (concat (map reviewedIn es)) nss \<and> (\<forall>e \<in> set es. \<exists>ns x. e = q ns x)
    \<and> (\<forall>e \<in> set (butlast es). \<not> failedCall e)"
  using assms(2) unfolding authorizeNamespacedI_def
  by (rule reviewNamespacesI_calls [OF assms(1), rotated])
    (auto simp: answerNamespaced_def split: sum.splits)

lemma no_lists:
  assumes "q = Reviewed user groups verb res rnm grp" "\<forall>e \<in> set es. \<exists>ns x. e = q ns x"
  shows "filter isListed es = [] \<and> length es = length (concat (map reviewedIn es))"
  using assms(2) by (induction es) (auto simp: assms(1))

lemma planned_named:
  assumes "q = Reviewed user groups verb res rnm grp" "verb \<noteq> CreateVerb" "\<not> failedCall (q [] x)"
    and "prefix (concat (map reviewedIn es)) nss \<and> (\<forall>e \<in> set es. \<exists>ns x. e = q ns x)
      \<and> (\<forall>e \<in> set (butlast es). \<not> failedCall e)"
  shows "plannedCalls q verb nss md (q [] x # es)"
    and "md \<Longrightarrow> nss' = [] \<Longrightarrow> plannedCalls q verb nss' md (q [] x # Listed (Inr nss) # es)"
proof -
  from assms(4) have pre: "prefix (concat (map reviewedIn es)) nss"
    and asks: "\<forall>e \<in> set es. \<exists>ns x. e = q ns x" and ok: "\<forall>e \<in> set (butlast es). \<not> failedCall e" by blast+
  from no_lists [OF assms(1) asks] prefix_length_le [OF pre] have len: "length es \<le> length nss"
    and none: "filter isListed es = []" by simp_all
  have q: "reviewedIn (q [] x) = [[]]" "\<not> isListed (q [] x)" by (simp_all add: assms(1))
  show "plannedCalls q verb nss md (q [] x # es)"
    unfolding plannedCalls_def
    by (intro conjI exI [of _ nss]) (use pre asks ok len none q assms(2,3) in \<open>auto split: if_splits\<close>)
  show "plannedCalls q verb nss' md (q [] x # Listed (Inr nss) # es)" if "md" "nss' = []"
    unfolding plannedCalls_def
    by (intro conjI exI [of _ nss])
      (use pre asks ok len none q assms(2,3) that in \<open>auto split: if_splits\<close>)
qed

lemma planned_short:
  assumes "q = Reviewed user groups verb res rnm grp"
  shows "plannedCalls q verb nss md []" "plannedCalls q verb nss md [q [] x]"
    and "\<not> failedCall (q [] x) \<Longrightarrow> verb \<noteq> CreateVerb \<Longrightarrow> plannedCalls q verb nss md [q [] x, Listed y]"
  by (auto simp: plannedCalls_def assms)

lemma answerI_review: "answerI q (AskReview ns k) e = Some p' \<Longrightarrow> \<exists>x. e = q ns x \<and> p' = k x"
  by (erule answerI_cases) auto

lemma answerI_list: "answerI q (AskList k) e = Some p' \<Longrightarrow> \<exists>x. e = Listed x \<and> p' = k x"
  by (erule answerI_cases) auto

lemma authorizeClusterWideI_calls:
  assumes "afterI q (authorizeClusterWideI nm m nss) es = Some p"
  shows "es = [] \<or> (\<exists>x. es = [Listed x])"
proof (cases es)
  case (Cons e es')
  with assms obtain p' where "answerI q (authorizeClusterWideI nm m nss) e = Some p'"
    and rest: "afterI q p' es' = Some p" by (auto split: option.splits)
  then show ?thesis
    using Cons by (auto simp: authorizeClusterWideI_def afterI_Done Let_def dest!: answerI_list
        split: if_splits sum.splits)
qed simp

lemma authorizeInnerI_planned:
  assumes "q = Reviewed user groups verb res rnm grp"
    and "afterI q (authorizeInnerI nm m verb nss md) es = Some p"
  shows "plannedCalls q verb nss md es"
proof (cases es)
  case Nil
  then show ?thesis by (simp add: planned_short [OF assms(1)])
next
  case (Cons e es')
  with assms(2) obtain p' where "answerI q (authorizeInnerI nm m verb nss md) e = Some p'"
    and rest: "afterI q p' es' = Some p" by (auto split: option.splits)
  then obtain x where e: "e = q [] x" and p': "p' = (case x of
       Inl err \<Rightarrow> Done (Inl (StatusCodeError (wrapf ''cluster-wide SAR failed'' err) StatusUnauthorized))
     | Inr clusterAllow \<Rightarrow>
         if verb = CreateVerb then Done (Inr (minimalDataResponseV1 clusterAllow))
         else if clusterAllow then authorizeClusterWideI nm m nss
         else if md \<and> length nss = 0 then
           AskList (\<lambda>y. case y of
              Inl err \<Rightarrow>
                Done (Inl (StatusCodeError (wrapf ''failed to access api server'' err) StatusUnauthorized))
            | Inr nsList \<Rightarrow>
                if length nsList = 0 then Done (Inr (minimalDataResponseV1 False))
                else authorizeNamespacedI nm m nsList)
         else authorizeNamespacedI nm m nss)"
    unfolding authorizeInnerI_def by (auto dest!: answerI_review)
  note short = planned_short [OF assms(1)]
  show ?thesis
  proof (cases "x = Inr True \<or> x = Inr False")
    case False
    then obtain err where "x = Inl err" by (cases x) auto
    with rest p' Cons e short show ?thesis by (auto simp: afterI_Done)
  next
    case True
    then have ok: "\<not> failedCall (q [] x)" by (auto simp: assms(1))
    consider "verb = CreateVerb" | "verb \<noteq> CreateVerb" "x = Inr True"
      | "verb \<noteq> CreateVerb" "x = Inr False" "md \<and> nss = []"
      | "verb \<noteq> CreateVerb" "x = Inr False" "\<not> (md \<and> nss = [])" using True by blast
    then show ?thesis
    proof cases
      case 1
      with rest p' Cons e True short show ?thesis by (auto simp: afterI_Done)
    next
      case 2
      with rest p' authorizeClusterWideI_calls [of q nm m nss es'] Cons e short(2) short(3) [OF ok 2(1)]
      show ?thesis by auto
    next
      case 3
      show ?thesis
      proof (cases es')
        case Nil
        with Cons e short(2) show ?thesis by simp
      next
        case inner: (Cons e' es'')
        from rest [unfolded p' inner] 3 obtain y where e': "e' = Listed y"
          and more: "afterI q (case y of
              Inl err \<Rightarrow>
                Done (Inl (StatusCodeError (wrapf ''failed to access api server'' err) StatusUnauthorized))
            | Inr nsList \<Rightarrow>
                if nsList = [] then Done (Inr (minimalDataResponseV1 False))
                else authorizeNamespacedI nm m nsList) es'' = Some p"
          by (auto split: option.splits dest!: answerI_list)
        show ?thesis
        proof (cases "es'' = []")
          case True
          with Cons inner e e' short(3) [OF ok 3(1)] show ?thesis by simp
        next
          case False
          with more obtain nsList where y: "y = Inr nsList"
            and "afterI q (authorizeNamespacedI nm m nsList) es'' = Some p"
            by (auto simp: afterI_Done split: sum.splits if_splits)
          from planned_named(2) [OF assms(1) 3(1) ok authorizeNamespacedI_calls [OF assms(1) this(2)]] 3(3)
          show ?thesis by (simp add: Cons inner e e' y)
        qed
      qed
    next
      case 4
      with rest p' have "afterI q (authorizeNamespacedI nm m nss) es' = Some p" by auto
      from planned_named(1) [OF assms(1) 4(1) ok authorizeNamespacedI_calls [OF assms(1) this]]
      show ?thesis by (simp add: Cons e)
    qed
  qed
qed

section \<open>A fixed policy\<close>

text \<open>A server that always answers by the same policy is a stable client, and stands for the recorded answers.\<close>

definition policyClient :: "grants \<Rightarrow> string list \<Rightarrow> unit Client" where
  "policyClient G listed =
     \<lparr>AccessReview = (\<lambda>s user groups verb res rnm grp ns. (Inr (G user groups verb res rnm grp ns), s)),
      ListNamespaces = (\<lambda>s. (Inr listed, s))\<rparr>"

interpretation policyServer: stable_client "policyClient G listed" "\<lambda>_. True" "\<lambda>_. G" "\<lambda>_. listed" for G listed
  by unfold_locales (auto simp: policyClient_def)

fun byPolicy :: "grants \<Rightarrow> string list \<Rightarrow> apiCall \<Rightarrow> bool" where
  "byPolicy G listed (Reviewed user groups verb res rnm grp ns x) \<longleftrightarrow> x = Inr (G user groups verb res rnm grp ns)"
| "byPolicy G listed (Listed x) \<longleftrightarrow> x = Inr listed"

lemma runI_byPolicy:
  assumes "afterI (Reviewed user groups verb res rnm grp) p es = Some (Done r)"
    and "\<forall>e \<in> set es. byPolicy G listed e"
  shows "runI (\<lambda>s ns. AccessReview (policyClient G listed) s user groups verb res rnm grp ns)
    (ListNamespaces (policyClient G listed)) p s = (r, s)"
  using assms
proof (induction es arbitrary: p)
  case (Cons e es)
  then obtain p' where p': "answerI (Reviewed user groups verb res rnm grp) p e = Some p'"
    and rest: "afterI (Reviewed user groups verb res rnm grp) p' es = Some (Done r)"
    by (auto split: option.splits)
  from Cons.IH [OF rest] Cons.prems(2) have IH: "runI
      (\<lambda>s ns. AccessReview (policyClient G listed) s user groups verb res rnm grp ns)
      (ListNamespaces (policyClient G listed)) p' s = (r, s)" by simp
  from p' show ?case
    by (cases rule: answerI_cases) (use IH Cons.prems(2) in \<open>auto simp: policyClient_def\<close>)
qed simp

lemma afterI_decides:
  assumes "newMatcherContract nm"
    and "afterI (Reviewed user groups verb res rnm grp) (authorizeInnerI nm m verb nss md) es = Some (Done r)"
    and "\<forall>e \<in> set es. byPolicy G listed e"
  shows "answers nm (decide (G user groups verb res rnm grp) listed m verb nss md) r"
proof -
  let ?a = "\<lparr>client = policyClient G listed, cache = hitCache, matcher = m\<rparr>"
  have "authorizeInner nm ?a () user groups verb res rnm grp nss md
      = runI (\<lambda>s ns. AccessReview (policyClient G listed) s user groups verb res rnm grp ns)
          (ListNamespaces (policyClient G listed)) (authorizeInnerI nm m verb nss md) ()"
    using runI_authorizeInner [of ?a user groups verb res rnm grp nm nss md "()"]
    by (simp only: Authorizer.select_convs)
  also have "\<dots> = (r, ())" by (rule runI_byPolicy [OF assms(2,3)])
  finally have "authorizeInner nm ?a () user groups verb res rnm grp nss md = (r, ())" .
  from policyServer.authorizeInner_stable [OF assms(1) TrueI _ this] show ?thesis by simp
qed

end
