(* ===== verification/Serving.thy ===== *)
theory Serving
  imports Response_Types Interaction
begin

text \<open>
  Concurrent requests. net/http runs the handler of each request in a goroutine of its own; they
  share the cache and the API server. A request is authorized in steps: the lookup, each single call
  of the API server, and the write of the result. Between two steps of one request, those of others
  run, the policy of the API server changes, and the cache loses entries. A call that the API server
  never answers is a thread that takes no step any more.

  \<open>serverStep\<close> is this interleaving as a step relation. One field of the state, the recorded calls,
  is for the statements only; no step reads it.
\<close>

section \<open>Requests\<close>

text \<open>The arguments of Authorize. The client is made from the token (NewClient), by \<open>cl\<close> below.\<close>

record authzRequest =
  rqToken :: string
  rqUser :: string
  rqGroups :: "string list"
  rqVerb :: string
  rqResource :: string
  rqName :: string
  rqApiGroup :: string
  rqNamespaces :: "string list"
  rqMetadataOnly :: bool
  rqMatcher :: Matcher

definition requestKey :: "authzRequest \<Rightarrow> string" where
  "requestKey rq = fst (generateCacheKey (rqToken rq) (rqUser rq) (rqGroups rq) (rqVerb rq)
     (rqResource rq) (rqName rq) (rqApiGroup rq) (rqNamespaces rq) (rqMetadataOnly rq) (Some (rqMatcher rq)))"

definition acceptedVerb :: "authzRequest \<Rightarrow> bool" where
  "acceptedVerb rq \<longleftrightarrow> rqVerb rq = CreateVerb \<or> rqVerb rq = GetVerb"

text \<open>The review that is asked of a namespace, and what is to be done on a miss.\<close>

definition queryOf :: "authzRequest \<Rightarrow> string \<Rightarrow> go_error + bool \<Rightarrow> apiCall" where
  "queryOf rq = Reviewed (rqUser rq) (sort_Strings (rqGroups rq)) (rqVerb rq) (rqResource rq)
     (rqName rq) (rqApiGroup rq)"

definition programOf :: "newMatcher \<Rightarrow> authzRequest \<Rightarrow> interaction" where
  "programOf nm rq = authorizeInnerI nm (rqMatcher rq) (rqVerb rq) (rqNamespaces rq) (rqMetadataOnly rq)"

definition reviewOf :: "'a Client \<Rightarrow> authzRequest \<Rightarrow> 'a \<Rightarrow> string \<Rightarrow> (go_error + bool) \<times> 'a" where
  "reviewOf c rq a ns = AccessReview c a (rqUser rq) (sort_Strings (rqGroups rq)) (rqVerb rq)
     (rqResource rq) (rqName rq) (rqApiGroup rq) ns"

text \<open>The sequential code on a request, with a client, a cache and their states.\<close>

definition innerOf ::
  "newMatcher \<Rightarrow> 'a Client \<Rightarrow> 'c Cacher \<Rightarrow> authzRequest \<Rightarrow> 'a \<Rightarrow> (go_error + DataResponseV1) \<times> 'a" where
  "innerOf nm c C rq a = authorizeInner nm (New c C (rqMatcher rq)) a (rqUser rq)
     (sort_Strings (rqGroups rq)) (rqVerb rq) (rqResource rq) (rqName rq) (rqApiGroup rq)
     (rqNamespaces rq) (rqMetadataOnly rq)"

definition authorizeWhole ::
  "newMatcher \<Rightarrow> 'a Client \<Rightarrow> 'c Cacher \<Rightarrow> authzRequest \<Rightarrow> 'c \<times> 'a
   \<Rightarrow> (go_error + DataResponseV1) \<times> 'c \<times> 'a" where
  "authorizeWhole nm c C rq st = Authorize nm (New c C (rqMatcher rq)) st (rqToken rq)
     (rqUser rq) (rqGroups rq) (rqVerb rq) (rqResource rq) (rqName rq) (rqApiGroup rq)
     (rqNamespaces rq) (rqMetadataOnly rq)"

section \<open>The server\<close>

text \<open>
  A thread has a request; then it is in authorizeInner, at a call of the API server or at its
  return; then the result of Authorize is the answer.
\<close>

datatype phase =
    Idle
  | Received authzRequest
  | Asking authzRequest interaction
  | Answered authzRequest "go_error + DataResponseV1"

text \<open>\<open>calls\<close>: the thread that called, the state the API server had, and the call with its answer.\<close>

record ('c, 'a) server =
  cacheState :: 'c
  apiState :: 'a
  threads :: "nat \<Rightarrow> phase"
  calls :: "(nat \<times> 'a \<times> apiCall) list"

definition startServer :: "'c \<Rightarrow> 'a \<Rightarrow> ('c, 'a) server" where
  "startServer c a = \<lparr>cacheState = c, apiState = a, threads = (\<lambda>_. Idle), calls = []\<rparr>"

abbreviation goto :: "nat \<Rightarrow> phase \<Rightarrow> ('c, 'a) server \<Rightarrow> ('c, 'a) server" where
  "goto i ph s \<equiv> s\<lparr>threads := (threads s)(i := ph)\<rparr>"

abbreviation record_call :: "nat \<Rightarrow> apiCall \<Rightarrow> 'a \<Rightarrow> ('c, 'a) server \<Rightarrow> ('c, 'a) server" where
  "record_call i e a s \<equiv> s\<lparr>apiState := a, calls := calls s @ [(i, apiState s, e)]\<rparr>"

text \<open>The steps of thread \<open>i\<close>; \<open>cl\<close> is the client made from a token.\<close>

inductive threadStep ::
  "newMatcher \<Rightarrow> 'c Cacher \<Rightarrow> (string \<Rightarrow> 'a Client) \<Rightarrow> nat \<Rightarrow> ('c, 'a) server \<Rightarrow> ('c, 'a) server \<Rightarrow> bool"
  for nm C cl i where
  refuse: "threads s i = Received rq \<Longrightarrow> \<not> acceptedVerb rq \<Longrightarrow>
    threadStep nm C cl i s (goto i (Answered rq (Inl (StatusCodeError
      (Errorf (Error errUnexpectedVerb @ '': '' @ rqVerb rq)) StatusBadRequest))) s)"
| hit: "threads s i = Received rq \<Longrightarrow> acceptedVerb rq \<Longrightarrow>
    cacheGet C (cacheState s) (requestKey rq) = (Inr (res, True), c) \<Longrightarrow>
    threadStep nm C cl i s (goto i (Answered rq (Inr res)) (s\<lparr>cacheState := c\<rparr>))"
| fetch_error: "threads s i = Received rq \<Longrightarrow> acceptedVerb rq \<Longrightarrow>
    cacheGet C (cacheState s) (requestKey rq) = (Inl err, c) \<Longrightarrow>
    threadStep nm C cl i s (goto i (Answered rq (Inl (StatusCodeError
      (wrapf ''failed to fetch authorization response from cache'' err) StatusInternalServerError)))
      (s\<lparr>cacheState := c\<rparr>))"
| miss: "threads s i = Received rq \<Longrightarrow> acceptedVerb rq \<Longrightarrow>
    cacheGet C (cacheState s) (requestKey rq) = (Inr (res, False), c) \<Longrightarrow>
    threadStep nm C cl i s (goto i (Asking rq (programOf nm rq)) (s\<lparr>cacheState := c\<rparr>))"
| review: "threads s i = Asking rq (AskReview ns k) \<Longrightarrow>
    reviewOf (cl (rqToken rq)) rq (apiState s) ns = (x, a) \<Longrightarrow>
    threadStep nm C cl i s (goto i (Asking rq (k x)) (record_call i (queryOf rq ns x) a s))"
| list_namespaces: "threads s i = Asking rq (AskList k) \<Longrightarrow>
    ListNamespaces (cl (rqToken rq)) (apiState s) = (x, a) \<Longrightarrow>
    threadStep nm C cl i s (goto i (Asking rq (k x)) (record_call i (Listed x) a s))"
| fail: "threads s i = Asking rq (Done (Inl err)) \<Longrightarrow>
    threadStep nm C cl i s (goto i (Answered rq (Inl err)) s)"
| store: "threads s i = Asking rq (Done (Inr res)) \<Longrightarrow>
    cacheSet C (cacheState s) (requestKey rq) res = (e, c) \<Longrightarrow>
    threadStep nm C cl i s (goto i (Answered rq (Inr res)) (s\<lparr>cacheState := c\<rparr>))"

text \<open>
  The server: any thread takes its step, a request arrives, or the environment acts: the policy of
  the API server \<open>changes\<close>, the cache \<open>loses\<close> entries.
\<close>

inductive serverStep ::
  "newMatcher \<Rightarrow> 'c Cacher \<Rightarrow> (string \<Rightarrow> 'a Client) \<Rightarrow> ('a \<Rightarrow> 'a \<Rightarrow> bool) \<Rightarrow> ('c \<Rightarrow> 'c \<Rightarrow> bool)
   \<Rightarrow> ('c, 'a) server \<Rightarrow> ('c, 'a) server \<Rightarrow> bool"
  for nm C cl changes loses where
  own: "threadStep nm C cl i s s' \<Longrightarrow> serverStep nm C cl changes loses s s'"
| arrive: "threads s i = Idle \<Longrightarrow> serverStep nm C cl changes loses s (goto i (Received rq) s)"
| policy: "changes (apiState s) a \<Longrightarrow> serverStep nm C cl changes loses s (s\<lparr>apiState := a\<rparr>)"
| lose: "loses (cacheState s) c \<Longrightarrow> serverStep nm C cl changes loses s (s\<lparr>cacheState := c\<rparr>)"

abbreviation serverRun ::
  "newMatcher \<Rightarrow> 'c Cacher \<Rightarrow> (string \<Rightarrow> 'a Client) \<Rightarrow> ('a \<Rightarrow> 'a \<Rightarrow> bool) \<Rightarrow> ('c \<Rightarrow> 'c \<Rightarrow> bool)
   \<Rightarrow> ('c, 'a) server \<Rightarrow> ('c, 'a) server \<Rightarrow> bool" where
  "serverRun nm C cl changes loses \<equiv> (serverStep nm C cl changes loses)\<^sup>*\<^sup>*"

abbreviation ownRun ::
  "newMatcher \<Rightarrow> 'c Cacher \<Rightarrow> (string \<Rightarrow> 'a Client) \<Rightarrow> nat \<Rightarrow> ('c, 'a) server \<Rightarrow> ('c, 'a) server \<Rightarrow> bool" where
  "ownRun nm C cl i \<equiv> (threadStep nm C cl i)\<^sup>*\<^sup>*"

text \<open>What the environment may do to the cache: entries get lost, none appears.\<close>

definition onlyLoses :: "('c \<Rightarrow> bool) \<Rightarrow> ('c \<Rightarrow> string \<Rightarrow> DataResponseV1 \<Rightarrow> bool) \<Rightarrow> ('c \<Rightarrow> 'c \<Rightarrow> bool) \<Rightarrow> bool" where
  "onlyLoses good stored loses \<longleftrightarrow>
     (\<forall>c c'. loses c c' \<and> good c \<longrightarrow> good c' \<and> (\<forall>k res. stored c' k res \<longrightarrow> stored c k res))"


section \<open>The calls of a thread\<close>

definition ownCalls :: "nat \<Rightarrow> ('c, 'a) server \<Rightarrow> apiCall list" where
  "ownCalls i s = [e. (j, a, e) \<leftarrow> calls s, j = i]"

lemma ownCalls_simps [simp]:
  "ownCalls i (startServer c a) = []"
  "ownCalls i (s\<lparr>threads := t\<rparr>) = ownCalls i s"
  "ownCalls i (s\<lparr>cacheState := c\<rparr>) = ownCalls i s"
  "ownCalls i (s\<lparr>apiState := a\<rparr>) = ownCalls i s"
  "ownCalls i (s\<lparr>apiState := a, calls := calls s @ [(j, b, e)]\<rparr>) = ownCalls i s @ (if j = i then [e] else [])"
  by (simp_all add: ownCalls_def startServer_def)

lemma startServer_simps [simp]:
  "threads (startServer c a) i = Idle" "calls (startServer c a) = []"
  "cacheState (startServer c a) = c" "apiState (startServer c a) = a"
  by (simp_all add: startServer_def)

text \<open>A thread does not touch the others, and an answer is final.\<close>

lemma threadStep_others:
  assumes "threadStep nm C cl i s s'" "j \<noteq> i"
  shows "threads s' j = threads s j \<and> ownCalls j s' = ownCalls j s"
  using assms by cases auto

lemma threadStep_answered:
  assumes "threadStep nm C cl i s s'"
  shows "threads s i \<noteq> Answered rq r" "threads s i \<noteq> Idle"
  using assms by (cases; simp)+

lemma serverStep_answered:
  assumes "serverStep nm C cl changes loses s s'" "threads s j = Answered rq r"
  shows "threads s' j = Answered rq r \<and> ownCalls j s' = ownCalls j s"
  using assms
proof cases
  case (own i)
  then have "j \<noteq> i" using assms(2) threadStep_answered(1) by metis
  with threadStep_others [OF own] assms(2) show ?thesis by simp
qed auto

text \<open>The request a thread has.\<close>

fun requestOf :: "phase \<Rightarrow> authzRequest option" where
  "requestOf Idle = None"
| "requestOf (Received rq) = Some rq"
| "requestOf (Asking rq p) = Some rq"
| "requestOf (Answered rq r) = Some rq"

lemma serverStep_request:
  assumes "serverStep nm C cl changes loses s s'" "requestOf (threads s j) = Some rq"
  shows "requestOf (threads s' j) = Some rq"
  using assms
proof cases
  case (own i)
  show ?thesis
  proof (cases "j = i")
    case True
    with own assms(2) show ?thesis by cases auto
  next
    case False
    with threadStep_others [OF own] assms(2) show ?thesis by simp
  qed
qed (use assms(2) in auto)

text \<open>What a thread is at follows from the calls it made.\<close>

definition threadInv :: "newMatcher \<Rightarrow> phase \<Rightarrow> apiCall list \<Rightarrow> bool" where
  "threadInv nm ph es \<longleftrightarrow>
     (case ph of
        Idle \<Rightarrow> es = []
      | Received rq \<Rightarrow> es = []
      | Asking rq p \<Rightarrow> afterI (queryOf rq) (programOf nm rq) es = Some p
      | Answered rq r \<Rightarrow> es = [] \<or> afterI (queryOf rq) (programOf nm rq) es = Some (Done r))"

lemma threadStep_inv:
  assumes "threadStep nm C cl i s s'" "threadInv nm (threads s i) (ownCalls i s)"
  shows "threadInv nm (threads s' i) (ownCalls i s')"
  using assms by cases (auto simp: threadInv_def afterI_snoc queryOf_def)

lemma serverStep_threadInv:
  assumes "serverStep nm C cl changes loses s s'" "threadInv nm (threads s j) (ownCalls j s)"
  shows "threadInv nm (threads s' j) (ownCalls j s')"
  using assms
proof cases
  case (own i)
  then show ?thesis
    using threadStep_inv [OF own] threadStep_others [OF own, of j] assms(2) by (cases "j = i") auto
qed (auto simp: threadInv_def)

lemma serverRun_threadInv:
  assumes "serverRun nm C cl changes loses (startServer c0 a0) s"
  shows "threadInv nm (threads s j) (ownCalls j s)"
  using assms
proof (induction rule: rtranclp_induct)
  case base
  show ?case by (simp add: threadInv_def)
next
  case (step s s')
  from serverStep_threadInv [OF step(2,3)] show ?case .
qed

section \<open>Where the recorded answers come from\<close>

text \<open>The client, called in the state \<open>a\<close> of the API server, gives the recorded answer.\<close>

fun honest :: "'a Client \<Rightarrow> 'a \<Rightarrow> apiCall \<Rightarrow> bool" where
  "honest c a (Reviewed user groups verb res rnm grp ns x) \<longleftrightarrow>
     fst (AccessReview c a user groups verb res rnm grp ns) = x"
| "honest c a (Listed x) \<longleftrightarrow> fst (ListNamespaces c a) = x"

lemma honest_queryOf: "honest c a (queryOf rq ns x) \<longleftrightarrow> fst (reviewOf c rq a ns) = x"
  by (simp add: queryOf_def reviewOf_def)

text \<open>
  Every call of a thread was answered by the client of the token of its request, in a state that the
  API server had during the run, at a time when the thread was asking.
\<close>

definition askedIn ::
  "(string \<Rightarrow> 'a Client) \<Rightarrow> (('c, 'a) server \<Rightarrow> ('c, 'a) server \<Rightarrow> bool) \<Rightarrow> ('c, 'a) server
   \<Rightarrow> ('c, 'a) server \<Rightarrow> nat \<Rightarrow> authzRequest \<Rightarrow> bool" where
  "askedIn cl run s0 s j rq \<longleftrightarrow>
     (\<forall>a e. (j, a, e) \<in> set (calls s) \<longrightarrow> honest (cl (rqToken rq)) a e
        \<and> (\<exists>s1 p. run s0 s1 \<and> run s1 s \<and> threads s1 j = Asking rq p \<and> apiState s1 = a))"

lemma serverStep_calls:
  assumes "serverStep nm C cl changes loses s s'"
  shows "calls s' = calls s
    \<or> (\<exists>i rq p e. threads s i = Asking rq p \<and> calls s' = calls s @ [(i, apiState s, e)]
        \<and> honest (cl (rqToken rq)) (apiState s) e)"
  using assms
proof cases
  case (own i)
  then show ?thesis by cases (auto simp: honest_queryOf)
qed auto

lemma serverRun_asked:
  assumes "serverRun nm C cl changes loses (startServer c0 a0) s" "requestOf (threads s j) = Some rq"
  shows "askedIn cl (serverRun nm C cl changes loses) (startServer c0 a0) s j rq"
  using assms
proof (induction arbitrary: rq rule: rtranclp_induct)
  case base
  then show ?case by simp
next
  case (step s s')
  let ?run = "serverRun nm C cl changes loses"
  show ?case
    unfolding askedIn_def
  proof (intro allI impI)
    fix a e
    assume e: "(j, a, e) \<in> set (calls s')"
    show "honest (cl (rqToken rq)) a e \<and> (\<exists>s1 p. ?run (startServer c0 a0) s1 \<and> ?run s1 s'
        \<and> threads s1 j = Asking rq p \<and> apiState s1 = a)"
    proof (cases "(j, a, e) \<in> set (calls s)")
      case True
      then have "requestOf (threads s j) \<noteq> None"
        using serverRun_threadInv [OF step(1), of j]
        by (auto simp: threadInv_def ownCalls_def concat_eq_Nil_conv split: phase.splits)
      then obtain rq' where rq': "requestOf (threads s j) = Some rq'" by blast
      from serverStep_request [OF step(2) rq'] step.prems have "rq' = rq" by simp
      with step.IH [OF rq'] True obtain s1 p where "honest (cl (rqToken rq)) a e"
        "?run (startServer c0 a0) s1" "?run s1 s" "threads s1 j = Asking rq p" "apiState s1 = a"
        unfolding askedIn_def by blast
      moreover have "?run s1 s'" by (rule rtranclp.rtrancl_into_rtrancl [OF \<open>?run s1 s\<close> step(2)])
      ultimately show ?thesis by blast
    next
      case False
      with serverStep_calls [OF step(2)] e obtain rq' p where new: "threads s j = Asking rq' p" "a = apiState s"
        "honest (cl (rqToken rq')) a e" by auto
      from serverStep_request [OF step(2), of j rq'] new(1) step.prems have "rq' = rq" by simp
      with new step(1) r_into_rtranclp [of "serverStep nm C cl changes loses", OF step(2)] show ?thesis by blast
    qed
  qed
qed

section \<open>Where the answers come from\<close>

text \<open>Thread \<open>j\<close> got its answer \<open>res\<close> to the request \<open>rq\<close> out of its own calls.\<close>

definition computedBy :: "newMatcher \<Rightarrow> ('c, 'a) server \<Rightarrow> nat \<Rightarrow> authzRequest \<Rightarrow> DataResponseV1 \<Rightarrow> bool" where
  "computedBy nm s j rq res \<longleftrightarrow> threads s j = Answered rq (Inr res)
     \<and> afterI (queryOf rq) (programOf nm rq) (ownCalls j s) = Some (Done (Inr res))"

definition computedFor :: "newMatcher \<Rightarrow> ('c, 'a) server \<Rightarrow> string \<Rightarrow> DataResponseV1 \<Rightarrow> bool" where
  "computedFor nm s k res \<longleftrightarrow> (\<exists>j rq. computedBy nm s j rq res \<and> requestKey rq = k)"

lemma computedFor_step:
  assumes "serverStep nm C cl changes loses s s'" "computedFor nm s k res"
  shows "computedFor nm s' k res"
  using serverStep_answered [OF assms(1)] assms(2) unfolding computedFor_def computedBy_def by metis

text \<open>Everything the cache stores and every answer was computed for a request with the same key.\<close>

definition answersInv ::
  "newMatcher \<Rightarrow> ('c \<Rightarrow> bool) \<Rightarrow> ('c \<Rightarrow> string \<Rightarrow> DataResponseV1 \<Rightarrow> bool) \<Rightarrow> ('c, 'a) server \<Rightarrow> bool" where
  "answersInv nm good stored s \<longleftrightarrow> good (cacheState s)
     \<and> (\<forall>k res. stored (cacheState s) k res \<longrightarrow> computedFor nm s k res)
     \<and> (\<forall>i rq res. threads s i = Answered rq (Inr res) \<longrightarrow> computedFor nm s (requestKey rq) res)"

text \<open>The invariant of the next state, from what is new in it.\<close>

lemma answersInv_step:
  assumes "serverStep nm C cl changes loses s s'" "answersInv nm good stored s"
    and "good (cacheState s')"
    and "\<And>k res. stored (cacheState s') k res \<Longrightarrow> stored (cacheState s) k res \<or> computedFor nm s' k res"
    and "\<And>i rq res. threads s' i = Answered rq (Inr res) \<Longrightarrow>
      threads s i = Answered rq (Inr res) \<or> computedFor nm s' (requestKey rq) res"
  shows "answersInv nm good stored s'"
  using assms(2-5) computedFor_step [OF assms(1)] unfolding answersInv_def by meson

context response_cache begin

lemma threadStep_answersInv:
  assumes "threadStep nm C cl i s s'" "answersInv nm good stored s"
    and "threadInv nm (threads s i) (ownCalls i s)"
    and "\<And>j rq res. threads s' j = Answered rq (Inr res) \<Longrightarrow> faithful res"
  shows "answersInv nm good stored s'"
proof -
  note inv = answersInv_step [OF serverStep.own [OF assms(1)] assms(2)]
  have good: "good (cacheState s)" using assms(2) by (simp add: answersInv_def)
  have old: "computedFor nm s' k res" if "computedFor nm s k res" for k res
    by (rule computedFor_step [OF serverStep.own [OF assms(1)] that])
  from assms(1) show ?thesis
  proof cases
    case (hit rq res c)
    have "computedFor nm s' (requestKey rq) res"
      using get_hit [OF good hit(4)] assms(2) old by (auto simp: answersInv_def)
    then show ?thesis
      using get_good [OF good, of "requestKey rq"] get_stored [OF good, of "requestKey rq"] hit
      by (intro inv) (auto split: if_splits)
  next
    case (store rq res e c)
    have "computedBy nm s' i rq res"
      using store(2) assms(3) by (auto simp: computedBy_def store(1) threadInv_def)
    then have new: "computedFor nm s' (requestKey rq) res" unfolding computedFor_def by blast
    have "faithful res" using assms(4) [of i rq res] store(1) by simp
    from set_good [OF good, of "requestKey rq" res] set_stored [OF good this, of "requestKey rq"] store new
    show ?thesis
      by (intro inv) (auto split: if_splits)
  next
    case (fetch_error rq err c)
    then show ?thesis
      using get_good [OF good, of "requestKey rq"] get_stored [OF good, of "requestKey rq"]
      by (intro inv) (auto split: if_splits)
  next
    case (miss rq res c)
    then show ?thesis
      using get_good [OF good, of "requestKey rq"] get_stored [OF good, of "requestKey rq"]
      by (intro inv) (auto split: if_splits)
  qed (use good in \<open>intro inv; auto split: if_splits\<close>)+
qed

lemma serverRun_answersInv:
  assumes "serverRun nm C cl changes loses (startServer c0 a0) s" "onlyLoses good stored loses"
    and "good c0" "\<And>k res. \<not> stored c0 k res"
    and "\<And>j rq res. threads s j = Answered rq (Inr res) \<Longrightarrow> faithful res"
  shows "answersInv nm good stored s"
  using assms(1,5)
proof (induction rule: rtranclp_induct)
  case base
  show ?case using assms(3,4) by (simp add: answersInv_def)
next
  case (step s s')
  have "answersInv nm good stored s"
    using serverStep_answered [OF step(2)] step(4) by (intro step(3)) metis
  from step(2) show ?case
  proof cases
    case (own i)
    from threadStep_answersInv [OF own \<open>answersInv nm good stored s\<close> serverRun_threadInv [OF step(1)]] step(4)
    show ?thesis by blast
  next
    case (lose c)
    then show ?thesis
      using assms(2) \<open>answersInv nm good stored s\<close>
      by (intro answersInv_step [OF step(2) \<open>answersInv nm good stored s\<close>])
        (auto simp: onlyLoses_def answersInv_def)
  qed (use \<open>answersInv nm good stored s\<close> in
      \<open>intro answersInv_step [OF step(2) \<open>answersInv nm good stored s\<close>]; auto simp: answersInv_def split: if_splits\<close>)+
qed

end

section \<open>Equal keys\<close>

text \<open>A request whose fields hold none of the separators of the key.\<close>

definition plainRequest :: "authzRequest \<Rightarrow> bool" where
  "plainRequest rq \<longleftrightarrow>
     list_all (\<lambda>x. CHR '','' \<notin> set x) [rqVerb rq, rqApiGroup rq, rqName rq, rqResource rq]
     \<and> list_all (\<lambda>n. n \<noteq> [] \<and> CHR '','' \<notin> set n \<and> CHR '':'' \<notin> set n) (rqNamespaces rq)"

text \<open>
  Two requests that ask the same, except that of the token, the user and the groups only the
  concatenation, and of the matcher only the keys, are compared, and these through SHA-256.
\<close>

definition sameRequest :: "authzRequest \<Rightarrow> authzRequest \<Rightarrow> bool" where
  "sameRequest rq rq' \<longleftrightarrow>
     rqVerb rq = rqVerb rq' \<and> rqMetadataOnly rq = rqMetadataOnly rq' \<and> rqApiGroup rq = rqApiGroup rq'
     \<and> rqName rq = rqName rq' \<and> rqResource rq = rqResource rq' \<and> rqNamespaces rq = rqNamespaces rq'
     \<and> rqUser rq = rqUser rq'
     \<and> (let u = userPreimage (rqToken rq) (rqUser rq) (rqGroups rq);
            u' = userPreimage (rqToken rq') (rqUser rq') (rqGroups rq')
        in u = u' \<or> collision u u')
     \<and> (let m = matcherPreimage (Keys (rqMatcher rq)); m' = matcherPreimage (Keys (rqMatcher rq'))
        in m = m' \<or> collision m m')"

lemma requestKey_same:
  assumes "requestKey rq = requestKey rq'" "plainRequest rq" "plainRequest rq'"
  shows "sameRequest rq rq'"
  using generateCacheKey_inject [OF assms(1) [unfolded requestKey_def]] assms(2,3)
  by (auto simp: sameRequest_def plainRequest_def list_all_iff Let_def)

text \<open>
  An answer is justified by a thread \<open>j\<close> of the server, which may be the one answered or another:
  thread \<open>j\<close> was given the same answer to a request with the same key, it is what the code returns
  on the calls \<open>j\<close> made and the answers they got, using all of them, and they back it; and each of
  these answers was given by the API server, as it then was, to the client of that request.
\<close>

definition justified ::
  "newMatcher \<Rightarrow> 'c Cacher \<Rightarrow> (string \<Rightarrow> 'a Client) \<Rightarrow> (('c, 'a) server \<Rightarrow> ('c, 'a) server \<Rightarrow> bool)
   \<Rightarrow> ('c, 'a) server \<Rightarrow> ('c, 'a) server \<Rightarrow> authzRequest \<Rightarrow> DataResponseV1 \<Rightarrow> bool" where
  "justified nm C cl run s0 s rq res \<longleftrightarrow>
     (\<exists>j rq0 d. threads s j = Answered rq0 (Inr res)
        \<and> requestKey rq0 = requestKey rq \<and> (plainRequest rq \<and> plainRequest rq0 \<longrightarrow> sameRequest rq rq0)
        \<and> innerOf nm answering C rq0 (ownCalls j s) = (Inr res, [])
        \<and> res = encodeDecision d \<and> backed (queryOf rq0) (rqMatcher rq0) (ownCalls j s) d
        \<and> askedIn cl run s0 s j rq0)"

lemma computedBy_inner:
  assumes "computedBy nm s j rq res"
  shows "innerOf nm answering C rq (ownCalls j s) = (Inr res, [])"
  using assms unfolding computedBy_def queryOf_def programOf_def innerOf_def
  by (blast intro: afterI_authorizeInner)

lemma computedBy_backed:
  assumes "newMatcherContract nm" "computedBy nm s j rq res"
  obtains d where "res = encodeDecision d" "backed (queryOf rq) (rqMatcher rq) (ownCalls j s) d"
proof -
  from assms(2) have "afterI (Reviewed (rqUser rq) (sort_Strings (rqGroups rq)) (rqVerb rq) (rqResource rq)
      (rqName rq) (rqApiGroup rq)) (authorizeInnerI nm (rqMatcher rq) (rqVerb rq) (rqNamespaces rq)
      (rqMetadataOnly rq)) (ownCalls j s) = Some (Done (Inr res))"
    by (simp add: computedBy_def queryOf_def programOf_def)
  from afterI_backed(2) [OF assms(1) this refl] that show thesis unfolding queryOf_def by blast
qed

lemma computedFor_type: "computedFor nm s k res \<Longrightarrow> responseType res"
proof -
  assume "computedFor nm s k res"
  then obtain j rq where "computedBy nm s j rq res" unfolding computedFor_def by blast
  from computedBy_inner [OF this, where C = hitCache]
  have "fst (innerOf nm answering hitCache rq (ownCalls j s)) = Inr res" by simp
  with resultType_authorizeInner show ?thesis unfolding innerOf_def by (metis resultType_simps(1))
qed

context response_cache begin

lemma serverRun_justified:
  assumes "newMatcherContract nm"
    and "serverRun nm C cl changes loses (startServer c0 a0) s" "onlyLoses good stored loses"
    and "good c0" "\<forall>k res. \<not> stored c0 k res"
    and "\<forall>j rq res. threads s j = Answered rq (Inr res) \<longrightarrow> faithful res"
    and "threads s i = Answered rq (Inr res)"
  shows "justified nm C cl (serverRun nm C cl changes loses) (startServer c0 a0) s rq res
    \<and> responseType res"
proof -
  have "answersInv nm good stored s"
    by (rule serverRun_answersInv [OF assms(2-4)]) (use assms(5,6) in auto)
  then have "computedFor nm s (requestKey rq) res" using assms(7) by (simp add: answersInv_def)
  then obtain j rq0 where j: "computedBy nm s j rq0 res" "requestKey rq0 = requestKey rq"
    unfolding computedFor_def by blast
  from j(1) have threads: "threads s j = Answered rq0 (Inr res)" by (simp add: computedBy_def)
  obtain d where "res = encodeDecision d" "backed (queryOf rq0) (rqMatcher rq0) (ownCalls j s) d"
    using computedBy_backed [OF assms(1) j(1)] .
  moreover have "askedIn cl (serverRun nm C cl changes loses) (startServer c0 a0) s j rq0"
    by (rule serverRun_asked [OF assms(2)]) (simp add: threads)
  ultimately show ?thesis
    using threads j(2) computedBy_inner [OF j(1)] requestKey_same [of rq rq0] computedFor_type
      \<open>computedFor nm s (requestKey rq) res\<close>
    unfolding justified_def by metis
qed

end

section \<open>A fixed policy\<close>

text \<open>While the API server keeps its policy, all the answers recorded are by that policy.\<close>

definition steady :: "'a apiServer \<Rightarrow> ('a \<Rightarrow> 'a \<Rightarrow> bool) \<Rightarrow> bool" where
  "steady api changes \<longleftrightarrow> (\<forall>a a'. up api a \<and> changes a a' \<longrightarrow> samePolicy api a a')"

lemma samePolicy_trans: "samePolicy api a b \<Longrightarrow> samePolicy api b c \<Longrightarrow> samePolicy api a c"
  by (simp add: samePolicy_def)

lemma samePolicy_self: "up api a \<Longrightarrow> samePolicy api a a"
  by (simp add: samePolicy_def)

lemma serverStep_samePolicy:
  assumes "serverStep nm C (\<lambda>t. asClient (c t)) changes loses s s'" "\<forall>t. apiContract api (c t)"
    and "steady api changes" "up api (apiState s)"
  shows "samePolicy api (apiState s) (apiState s')"
  using assms(1)
proof cases
  case (own i)
  then show ?thesis
  proof cases
    case (review rq ns k x a)
    from review(3) have "client_AccessReview (c (rqToken rq)) (apiState s) (rqUser rq)
        (sort_Strings (rqGroups rq)) (rqVerb rq) (rqResource rq) (rqName rq) (rqApiGroup rq) ns = (x, a)"
      by (simp add: reviewOf_def asClient_def)
    from client_AccessReview_stable [OF spec [OF assms(2)] assms(4) this] review(1) show ?thesis by simp
  next
    case (list_namespaces rq k x a)
    from list_namespaces(3) have "client_ListNamespaces (c (rqToken rq)) (apiState s) = (x, a)"
      by (simp add: asClient_def)
    from client_ListNamespaces_stable [OF spec [OF assms(2)] assms(4) this] list_namespaces(1)
    show ?thesis by simp
  qed (use samePolicy_self [OF assms(4)] in auto)
next
  case (policy a)
  with assms(3,4) show ?thesis by (auto simp: steady_def)
qed (use samePolicy_self [OF assms(4)] in auto)

lemma serverRun_samePolicy:
  assumes "serverRun nm C (\<lambda>t. asClient (c t)) changes loses s s'" "\<forall>t. apiContract api (c t)"
    and "steady api changes" "up api (apiState s)"
  shows "samePolicy api (apiState s) (apiState s')"
  using assms(1)
proof (induction rule: rtranclp_induct)
  case base
  show ?case by (rule samePolicy_self [OF assms(4)])
next
  case (step s1 s2)
  then have "up api (apiState s1)" by (simp add: samePolicy_def)
  from samePolicy_trans [OF step(3) serverStep_samePolicy [OF step(2) assms(2,3) this]] show ?case .
qed

lemma honest_byPolicy:
  assumes "apiContract api c" "up api a" "honest (asClient c) a e"
  shows "byPolicy (clientGrants api c a) (map projectName (projects api a)) e"
proof (cases e)
  case (Reviewed user groups verb res rnm grp ns x)
  obtain y s' where y: "client_AccessReview c a user groups verb res rnm grp ns = (y, s')" by fastforce
  with client_AccessReview_stable [OF assms(1,2) y] assms(3) Reviewed show ?thesis
    by (simp add: asClient_def)
next
  case (Listed x)
  obtain y s' where y: "client_ListNamespaces c a = (y, s')" by fastforce
  with client_ListNamespaces_stable [OF assms(1,2) y] assms(3) Listed show ?thesis
    by (simp add: asClient_def)
qed

lemma askedIn_byPolicy:
  assumes "askedIn (\<lambda>t. asClient (c t)) (serverRun nm C (\<lambda>t. asClient (c t)) changes loses) s0 s j rq"
    and "\<forall>t. apiContract api (c t)" "steady api changes" "up api (apiState s0)"
    and "e \<in> set (ownCalls j s)"
  shows "byPolicy (clientGrants api (c (rqToken rq)) (apiState s0))
    (map projectName (projects api (apiState s0))) e"
proof -
  from assms(5) obtain a where "(j, a, e) \<in> set (calls s)" by (auto simp: ownCalls_def)
  with assms(1) obtain s1 where e: "honest (asClient (c (rqToken rq))) a e"
    and s1: "serverRun nm C (\<lambda>t. asClient (c t)) changes loses s0 s1" "apiState s1 = a"
    unfolding askedIn_def by blast
  from serverRun_samePolicy [OF s1(1) assms(2-4)] s1(2) have same: "samePolicy api (apiState s0) a" by simp
  from samePolicy_keeps [OF same] honest_byPolicy [OF _ _ e, of api] assms(2) show ?thesis by metis
qed

context response_cache begin

lemma serverRun_decides:
  assumes "newMatcherContract nm" "\<forall>t. apiContract api (c t)" "up api a0" "steady api changes"
    and "serverRun nm C (\<lambda>t. asClient (c t)) changes loses (startServer c0 a0) s" "onlyLoses good stored loses"
    and "good c0" "\<forall>k res. \<not> stored c0 k res"
    and "\<forall>j rq res. threads s j = Answered rq (Inr res) \<longrightarrow> faithful res"
    and "threads s i = Answered rq (Inr res)"
  shows "\<exists>j rq0. threads s j = Answered rq0 (Inr res) \<and> requestKey rq0 = requestKey rq
    \<and> (plainRequest rq \<and> plainRequest rq0 \<longrightarrow> sameRequest rq rq0)
    \<and> res = encodeDecision (decide
        (clientGrants api (c (rqToken rq0)) a0 (rqUser rq0) (sort_Strings (rqGroups rq0)) (rqVerb rq0)
          (rqResource rq0) (rqName rq0) (rqApiGroup rq0))
        (map projectName (projects api a0)) (rqMatcher rq0) (rqVerb rq0) (rqNamespaces rq0) (rqMetadataOnly rq0))"
proof -
  have "answersInv nm good stored s"
    by (rule serverRun_answersInv [OF assms(5-7)]) (use assms(8,9) in auto)
  then have "computedFor nm s (requestKey rq) res" using assms(10) by (simp add: answersInv_def)
  then obtain j rq0 where j: "computedBy nm s j rq0 res" "requestKey rq0 = requestKey rq"
    unfolding computedFor_def by blast
  from j(1) have threads: "threads s j = Answered rq0 (Inr res)"
    and after: "afterI (Reviewed (rqUser rq0) (sort_Strings (rqGroups rq0)) (rqVerb rq0) (rqResource rq0)
      (rqName rq0) (rqApiGroup rq0)) (authorizeInnerI nm (rqMatcher rq0) (rqVerb rq0) (rqNamespaces rq0)
      (rqMetadataOnly rq0)) (ownCalls j s) = Some (Done (Inr res))"
    by (simp_all add: computedBy_def queryOf_def programOf_def)
  have asked: "askedIn (\<lambda>t. asClient (c t)) (serverRun nm C (\<lambda>t. asClient (c t)) changes loses)
      (startServer c0 a0) s j rq0"
    by (rule serverRun_asked [OF assms(5)]) (simp add: threads)
  have up: "up api (apiState (startServer c0 a0))" using assms(3) by simp
  have "\<forall>e \<in> set (ownCalls j s). byPolicy (clientGrants api (c (rqToken rq0)) a0)
      (map projectName (projects api a0)) e"
    using askedIn_byPolicy [OF asked assms(2,4) up] by simp
  from afterI_decides [OF assms(1) after this] threads j(2) requestKey_same [of rq rq0] show ?thesis
    by (auto simp: answers_def)
qed

end

section \<open>Executions\<close>

text \<open>An infinite sequence of steps, in which single threads may be stuck in a call for ever.\<close>

definition execution ::
  "newMatcher \<Rightarrow> 'c Cacher \<Rightarrow> (string \<Rightarrow> 'a Client) \<Rightarrow> ('a \<Rightarrow> 'a \<Rightarrow> bool) \<Rightarrow> ('c \<Rightarrow> 'c \<Rightarrow> bool)
   \<Rightarrow> (nat \<Rightarrow> ('c, 'a) server) \<Rightarrow> bool" where
  "execution nm C cl changes loses f \<longleftrightarrow> (\<forall>k. serverStep nm C cl changes loses (f k) (f (Suc k)))"

text \<open>
  Thread \<open>i\<close> is scheduled and its calls return: it is never left for ever between its request and
  its answer. Nothing is said of the other threads.
\<close>

fun pending :: "phase \<Rightarrow> bool" where
  "pending (Received rq) \<longleftrightarrow> True"
| "pending (Asking rq p) \<longleftrightarrow> True"
| "pending ph \<longleftrightarrow> False"

definition notStuck :: "nat \<Rightarrow> (nat \<Rightarrow> ('c, 'a) server) \<Rightarrow> bool" where
  "notStuck i f \<longleftrightarrow> (\<forall>k. pending (threads (f k) i) \<longrightarrow> (\<exists>l\<ge>k. threads (f (Suc l)) i \<noteq> threads (f l) i))"

text \<open>A pending thread always has a next step, whatever the others did to the cache and the API server.\<close>

lemma pending_enabled:
  assumes "pending (threads s i)"
  shows "\<exists>s'. threadStep nm C cl i s s'"
proof (cases "threads s i")
  case (Received rq)
  show ?thesis
  proof (cases "acceptedVerb rq")
    case True
    obtain x c where get: "cacheGet C (cacheState s) (requestKey rq) = (x, c)" by fastforce
    consider err where "x = Inl err" | res where "x = Inr (res, True)" | res where "x = Inr (res, False)"
      by (metis (full_types) sum.exhaust surj_pair)
    then show ?thesis
      by cases (use get Received True threadStep.fetch_error threadStep.hit threadStep.miss in fast)+
  qed (use Received threadStep.refuse in fast)
next
  case (Asking rq p)
  then show ?thesis
  proof (cases p)
    case (Done r)
    with Asking show ?thesis
      by (cases r; cases "cacheSet C (cacheState s) (requestKey rq) (projr r)")
        (use threadStep.fail threadStep.store in \<open>fastforce\<close>)+
  next
    case (AskReview ns k)
    obtain x a where "reviewOf (cl (rqToken rq)) rq (apiState s) ns = (x, a)" by fastforce
    from threadStep.review [where k = k and cl = cl, OF Asking [unfolded AskReview] this] show ?thesis by blast
  next
    case (AskList k)
    obtain x a where "ListNamespaces (cl (rqToken rq)) (apiState s) = (x, a)" by fastforce
    from threadStep.list_namespaces [where k = k and cl = cl, OF Asking [unfolded AskList] this]
    show ?thesis by blast
  qed
qed (use assms in simp_all)

lemma execution_run:
  assumes "execution nm C cl changes loses f" "k \<le> l"
  shows "serverRun nm C cl changes loses (f k) (f l)"
  using assms(2)
proof (induction l rule: dec_induct)
  case (step l)
  then show ?case
    using assms(1) unfolding execution_def by (meson rtranclp.rtrancl_into_rtrancl)
qed simp

subsection \<open>A thread takes finitely many steps\<close>

inductive descends :: "phase \<Rightarrow> phase \<Rightarrow> bool" where
  "descends Idle (Received rq)"
| "descends (Received rq) (Asking rq p)"
| "descends (Received rq) (Answered rq r)"
| "descends (Asking rq (AskReview n k)) (Asking rq (k x))"
| "descends (Asking rq (AskList k')) (Asking rq (k' y))"
| "descends (Asking rq (Done r)) (Answered rq r)"

inductive_simps descends_simps:
  "descends Idle ph" "descends (Received rq) ph" "descends (Asking rq (AskReview n k)) ph"
  "descends (Asking rq (AskList k')) ph" "descends (Asking rq (Done r)) ph" "descends (Answered rq r) ph"

lemma descends_induct:
  assumes step: "\<And>ph. (\<And>ph'. descends ph ph' \<Longrightarrow> P ph') \<Longrightarrow> P ph"
  shows "P ph"
proof -
  have ans: "P (Answered rq r)" for rq r
    by (rule step) (simp add: descends_simps)
  have ask: "P (Asking rq p)" for rq p
    by (induction p) (rule step; auto simp: descends_simps ans)+
  have rec: "P (Received rq)" for rq
    by (rule step) (auto simp: descends_simps ans ask)
  have "P Idle" by (rule step) (auto simp: descends_simps rec)
  with ans ask rec show ?thesis by (cases ph) auto
qed

lemma serverStep_descends:
  assumes "serverStep nm C cl changes loses s s'"
  shows "threads s' i = threads s i \<or> descends (threads s i) (threads s' i)"
  using assms
proof cases
  case (own j)
  show ?thesis
  proof (cases "i = j")
    case True
    from own show ?thesis unfolding True by cases (auto simp: descends_simps)
  next
    case False
    with threadStep_others [OF own] show ?thesis by simp
  qed
qed (auto simp: descends_simps)

text \<open>The next step of the thread, when there is one.\<close>

lemma next_move:
  assumes "execution nm C cl changes loses f" "\<exists>l\<ge>k. threads (f (Suc l)) i \<noteq> threads (f l) i"
  obtains l where "k \<le> l" "descends (threads (f k) i) (threads (f (Suc l)) i)"
    "\<And>j. k \<le> j \<Longrightarrow> j < l \<Longrightarrow> threads (f (Suc j)) i = threads (f j) i"
proof -
  define l where "l = (LEAST l. k \<le> l \<and> threads (f (Suc l)) i \<noteq> threads (f l) i)"
  from assms(2) have l: "k \<le> l" "threads (f (Suc l)) i \<noteq> threads (f l) i"
    unfolding l_def by (metis (mono_tags, lifting) LeastI_ex)+
  have least: "threads (f (Suc j)) i = threads (f j) i" if "k \<le> j" "j < l" for j
    using that not_less_Least unfolding l_def by blast
  have "threads (f j) i = threads (f k) i" if "k \<le> j" "j \<le> l" for j
    using that
  proof (induction j rule: dec_induct)
    case (step j)
    with least [of j] show ?case by simp
  qed simp
  from this [of l] l have "threads (f l) i = threads (f k) i" by simp
  moreover have "serverStep nm C cl changes loses (f l) (f (Suc l))"
    using assms(1) by (simp add: execution_def)
  ultimately show thesis
    using serverStep_descends [of nm C cl changes loses "f l" "f (Suc l)" i] l least by (intro that [of l]) auto
qed

lemma finite_moves:
  assumes "execution nm C cl changes loses f"
  shows "finite {l. k \<le> l \<and> threads (f (Suc l)) i \<noteq> threads (f l) i}"
proof (induction "threads (f k) i" arbitrary: k rule: descends_induct)
  case 1
  show ?case
  proof (cases "\<exists>l\<ge>k. threads (f (Suc l)) i \<noteq> threads (f l) i")
    case True
    obtain l where l: "k \<le> l" "descends (threads (f k) i) (threads (f (Suc l)) i)"
      "\<And>j. k \<le> j \<Longrightarrow> j < l \<Longrightarrow> threads (f (Suc j)) i = threads (f j) i"
      using next_move [OF assms True] by blast
    have "{l. k \<le> l \<and> threads (f (Suc l)) i \<noteq> threads (f l) i}
        \<subseteq> insert l {m. Suc l \<le> m \<and> threads (f (Suc m)) i \<noteq> threads (f m) i}"
      using l(3) by (auto simp: Suc_le_eq) (metis linorder_neqE_nat)
    from finite_subset [OF this] 1 [OF l(2)] show ?thesis by simp
  next
    case False
    then have "{l. k \<le> l \<and> threads (f (Suc l)) i \<noteq> threads (f l) i} = {}" by auto
    then show ?thesis by (simp only: finite.emptyI)
  qed
qed

lemma descends_pending:
  "descends ph ph' \<Longrightarrow> pending ph \<Longrightarrow> requestOf ph = Some rq \<Longrightarrow>
   pending ph' \<and> requestOf ph' = Some rq \<or> (\<exists>r. ph' = Answered rq r)"
  by (induction rule: descends.induct) auto

lemma eventually_answered:
  assumes "execution nm C cl changes loses f" "notStuck i f"
    and "pending (threads (f k) i)" "requestOf (threads (f k) i) = Some rq"
  shows "\<exists>l r. k < l \<and> threads (f l) i = Answered rq r"
  using assms(3,4)
proof (induction "threads (f k) i" arbitrary: k rule: descends_induct)
  case 1
  then have "\<exists>l\<ge>k. threads (f (Suc l)) i \<noteq> threads (f l) i" using assms(2) by (simp add: notStuck_def)
  from next_move [OF assms(1) this] obtain l where
    l: "k \<le> l" "descends (threads (f k) i) (threads (f (Suc l)) i)" by blast
  from descends_pending [OF l(2) 1(2,3)] show ?case
  proof
    assume "pending (threads (f (Suc l)) i) \<and> requestOf (threads (f (Suc l)) i) = Some rq"
    with 1(1) [OF l(2)] l(1) show ?thesis by (meson Suc_lessD le_less_trans less_trans lessI)
  next
    assume "\<exists>r. threads (f (Suc l)) i = Answered rq r"
    with l(1) show ?thesis by (meson le_imp_less_Suc)
  qed
qed

subsection \<open>What the answer is\<close>

lemma authorizeWhole_eq:
  "authorizeWhole nm c C rq (cc, a) =
     (if \<not> acceptedVerb rq then
        (Inl (StatusCodeError (Errorf (Error errUnexpectedVerb @ '': '' @ rqVerb rq)) StatusBadRequest), cc, a)
      else
        (case cacheGet C cc (requestKey rq) of
           (Inl err, c') \<Rightarrow>
             (Inl (StatusCodeError (wrapf ''failed to fetch authorization response from cache'' err)
                StatusInternalServerError), c', a)
         | (Inr (resp, ok), c') \<Rightarrow>
             if ok then (Inr resp, c', a)
             else
               (case innerOf nm c C rq a of
                  (Inl err, a') \<Rightarrow> (Inl err, c', a')
                | (Inr resp', a') \<Rightarrow> (Inr resp', snd (cacheSet C c' (requestKey rq) resp'), a'))))"
proof -
  have sel: "matcher (New c C (rqMatcher rq)) = rqMatcher rq" "cache (New c C (rqMatcher rq)) = C"
    by (simp_all add: New_def)
  show ?thesis
    by (simp only: authorizeWhole_def Authorize_eq Let_def sel acceptedVerb_def requestKey_def innerOf_def
        de_Morgan_disj)
qed

text \<open>A lookup that missed, and the recorded calls: the rest of Authorize on them.\<close>

lemma authorizeWhole_missed:
  assumes "acceptedVerb rq" "cacheGet C cc (requestKey rq) = (Inr (res, False), c')"
    and "afterI (queryOf rq) (programOf nm rq) es = Some (Done r)"
  shows "\<exists>c''. authorizeWhole nm answering C rq (cc, es) = (r, c'', [])"
proof -
  from assms(3) have "innerOf nm answering C rq es = (r, [])"
    unfolding queryOf_def programOf_def innerOf_def by (rule afterI_authorizeInner)
  with assms(1,2) show ?thesis by (cases r) (simp_all add: authorizeWhole_eq)
qed

text \<open>The thread looked its request up and missed, at a moment from \<open>k\<close> on and before \<open>l\<close>.\<close>

definition missedAt ::
  "'c Cacher \<Rightarrow> (nat \<Rightarrow> ('c, 'a) server) \<Rightarrow> nat \<Rightarrow> nat \<Rightarrow> authzRequest \<Rightarrow> nat \<Rightarrow> bool" where
  "missedAt C f k l rq j \<longleftrightarrow> k \<le> j \<and> j < l \<and> acceptedVerb rq
     \<and> (\<exists>res c. cacheGet C (cacheState (f j)) (requestKey rq) = (Inr (res, False), c))"

definition servedSince ::
  "newMatcher \<Rightarrow> 'c Cacher \<Rightarrow> (nat \<Rightarrow> ('c, 'a) server) \<Rightarrow> nat \<Rightarrow> nat \<Rightarrow> authzRequest \<Rightarrow> nat \<Rightarrow> bool" where
  "servedSince nm C f i k rq l \<longleftrightarrow>
     (case threads (f l) i of
        Idle \<Rightarrow> False
      | Received rq' \<Rightarrow> rq' = rq
      | Asking rq' p \<Rightarrow> rq' = rq \<and> (\<exists>j. missedAt C f k l rq j)
      | Answered rq' r \<Rightarrow> rq' = rq
          \<and> (\<exists>j c. k \<le> j \<and> j < l
               \<and> authorizeWhole nm answering C rq (cacheState (f j), ownCalls i (f l)) = (r, c, [])))"

lemma missedAt_Suc: "missedAt C f k l rq j \<Longrightarrow> missedAt C f k (Suc l) rq j"
  by (auto simp: missedAt_def)

text \<open>An answer given by a thread of its own, at the moment \<open>l\<close>.\<close>

lemma answered_now:
  assumes "threadStep nm C cl i (f l) (f (Suc l))" "threads (f (Suc l)) i = Answered rq r"
    and "threadInv nm (threads (f l) i) (ownCalls i (f l))" "k \<le> l"
    and "\<And>p. threads (f l) i = Asking rq p \<Longrightarrow> \<exists>j. missedAt C f k l rq j"
  shows "\<exists>j c. k \<le> j \<and> j < Suc l
    \<and> authorizeWhole nm answering C rq (cacheState (f j), ownCalls i (f (Suc l))) = (r, c, [])"
proof (cases "\<exists>p. threads (f l) i = Asking rq p")
  case True
  then obtain p where p: "threads (f l) i = Asking rq p" by blast
  from assms(1,2) p have "p = Done r" "ownCalls i (f (Suc l)) = ownCalls i (f l)" by (cases; auto)+
  with p assms(3) have after: "afterI (queryOf rq) (programOf nm rq) (ownCalls i (f (Suc l))) = Some (Done r)"
    by (simp add: threadInv_def)
  from assms(5) [OF p] obtain j res c where "k \<le> j" "j < l" "acceptedVerb rq"
    "cacheGet C (cacheState (f j)) (requestKey rq) = (Inr (res, False), c)"
    unfolding missedAt_def by blast
  with authorizeWhole_missed [OF this(3,4) after] show ?thesis by (meson less_Suc_eq)
next
  case False
  from assms(1,2,3) False
  have "\<exists>c. authorizeWhole nm answering C rq (cacheState (f l), ownCalls i (f (Suc l))) = (r, c, [])"
    by cases (auto simp: authorizeWhole_eq threadInv_def)
  with assms(4) show ?thesis by blast
qed

lemma servedSince_step:
  assumes "serverStep nm C cl changes loses (f l) (f (Suc l))" "k \<le> l"
    and "threadInv nm (threads (f l) i) (ownCalls i (f l))" "servedSince nm C f i k rq l"
  shows "servedSince nm C f i k rq (Suc l)"
proof (cases "threads (f (Suc l)) i = threads (f l) i \<and> ownCalls i (f (Suc l)) = ownCalls i (f l)")
  case True
  with assms(4) show ?thesis
    by (auto simp: servedSince_def less_Suc_eq split: phase.splits) (metis missedAt_Suc)
next
  case moved: False
  have own: "threadStep nm C cl i (f l) (f (Suc l))"
    using assms(1)
  proof cases
    case (own j)
    with threadStep_others [OF own, of i] moved show ?thesis by (cases "i = j") auto
  next
    case (arrive j)
    with moved assms(4) show ?thesis by (cases "i = j") (auto simp: servedSince_def)
  qed (use moved in auto)
  show ?thesis
  proof (cases "threads (f (Suc l)) i")
    case (Answered rq' r)
    with assms(4) serverStep_request [OF assms(1), of i rq] have "rq' = rq"
      by (cases "threads (f l) i") (auto simp: servedSince_def)
    have asks: "\<exists>j. missedAt C f k l rq j" if "threads (f l) i = Asking rq p" for p
      using assms(4) that by (simp add: servedSince_def)
    from answered_now [OF own Answered [unfolded \<open>rq' = rq\<close>] assms(3,2) asks] Answered \<open>rq' = rq\<close>
    show ?thesis by (simp add: servedSince_def)
  next
    case (Asking rq' p)
    from own Asking assms(2,4) have "rq' = rq \<and> (\<exists>j. missedAt C f k (Suc l) rq j)"
      by cases (auto simp: servedSince_def missedAt_def less_Suc_eq intro: exI [of _ l])
    with Asking show ?thesis by (simp add: servedSince_def)
  qed (use own in \<open>cases; auto\<close>)+
qed

lemma execution_served:
  assumes "execution nm C cl changes loses f" "f 0 = startServer c0 a0"
    and "threads (f k) i = Received rq" "k \<le> l"
  shows "servedSince nm C f i k rq l"
  using assms(4)
proof (induction l rule: dec_induct)
  case base
  show ?case by (simp add: servedSince_def assms(3))
next
  case (step l)
  have "threadInv nm (threads (f l) i) (ownCalls i (f l))"
    using serverRun_threadInv [of nm C cl changes loses c0 a0 "f l" i] execution_run [OF assms(1), of 0 l] assms(2)
    by simp
  with assms(1) step show ?case
    by (intro servedSince_step) (auto simp: execution_def)
qed

lemma execution_planned:
  assumes "execution nm C cl changes loses f" "f 0 = startServer c0 a0"
    and "requestOf (threads (f l) i) = Some rq"
  shows "plannedCalls (queryOf rq) (rqVerb rq) (rqNamespaces rq) (rqMetadataOnly rq) (ownCalls i (f l))"
proof -
  have inv: "threadInv nm (threads (f l) i) (ownCalls i (f l))"
    using serverRun_threadInv [of nm C cl changes loses c0 a0 "f l" i] execution_run [OF assms(1), of 0 l] assms(2)
    by simp
  note q = queryOf_def [of rq]
  have "plannedCalls (queryOf rq) (rqVerb rq) (rqNamespaces rq) (rqMetadataOnly rq) es"
    if "afterI (queryOf rq) (programOf nm rq) es = Some p" for es p
    using authorizeInnerI_planned [OF q that [unfolded programOf_def]] .
  with inv assms(3) planned_short(1) [OF q] show ?thesis
    by (cases "threads (f l) i") (auto simp: threadInv_def)
qed

section \<open>An undisturbed request\<close>

text \<open>The steps of one thread are deterministic, and end with its answer.\<close>

lemma threadStep_deterministic:
  assumes "threadStep nm C cl i s s1" "threadStep nm C cl i s s2"
  shows "s1 = s2"
  using assms(1)
proof cases
  case refuse
  from assms(2) refuse show ?thesis by cases auto
next
  case hit
  from assms(2) hit show ?thesis by cases auto
next
  case fetch_error
  from assms(2) fetch_error show ?thesis by cases auto
next
  case miss
  from assms(2) miss show ?thesis by cases auto
next
  case review
  from assms(2) review show ?thesis by cases auto
next
  case list_namespaces
  from assms(2) list_namespaces show ?thesis by cases auto
next
  case fail
  from assms(2) fail show ?thesis by cases auto
next
  case store
  from assms(2) store show ?thesis by cases auto
qed

lemma ownRun_unique:
  assumes "ownRun nm C cl i s s1" "threads s1 i = Answered rq r"
    and "ownRun nm C cl i s s2" "threads s2 i = Answered rq' r'"
  shows "s1 = s2"
  using assms(1,3)
proof (induction rule: converse_rtranclp_induct)
  case base
  then show ?case
    using assms(2) threadStep_answered(1) by (metis converse_rtranclpE)
next
  case (step s t)
  then have "s \<noteq> s2" using assms(4) threadStep_answered(1) by metis
  with step obtain t' where "threadStep nm C cl i s t'" "ownRun nm C cl i t' s2"
    by (metis converse_rtranclpE)
  with step threadStep_deterministic show ?case by metis
qed

text \<open>The rest of authorizeInner as steps of the thread, with the calls the recording client records.\<close>

lemma ownRun_interaction:
  assumes "threads s i = Asking rq p"
    and "runI (reviewOf (cl (rqToken rq)) rq) (ListNamespaces (cl (rqToken rq))) p (apiState s) = (r, a)"
  shows "\<exists>s' es. ownRun nm C cl i s s' \<and> threads s' = (threads s)(i := Asking rq (Done r))
    \<and> cacheState s' = cacheState s \<and> apiState s' = a \<and> ownCalls i s' = ownCalls i s @ es
    \<and> runI (reviewOf (logged (cl (rqToken rq))) rq) (ListNamespaces (logged (cl (rqToken rq)))) p
        (apiState s, l) = (r, a, l @ es)"
  using assms
proof (induction p arbitrary: s l)
  case (Done r')
  then show ?case by (intro exI [of _ s] exI [of _ "[]"]) auto
next
  case (AskReview ns k)
  obtain x a1 where x: "reviewOf (cl (rqToken rq)) rq (apiState s) ns = (x, a1)" by fastforce
  let ?s = "goto i (Asking rq (k x)) (record_call i (queryOf rq ns x) a1 s)"
  have st: "threadStep nm C cl i s ?s" by (rule review [where k = k and cl = cl, OF AskReview.prems(1) x])
  have log: "reviewOf (logged (cl (rqToken rq))) rq (apiState s, l) ns = (x, a1, l @ [queryOf rq ns x])"
    using x by (simp add: reviewOf_def logged_AccessReview queryOf_def)
  have "\<exists>s' es. ownRun nm C cl i ?s s' \<and> threads s' = (threads ?s)(i := Asking rq (Done r))
      \<and> cacheState s' = cacheState ?s \<and> apiState s' = a \<and> ownCalls i s' = ownCalls i ?s @ es
      \<and> runI (reviewOf (logged (cl (rqToken rq))) rq) (ListNamespaces (logged (cl (rqToken rq)))) (k x)
          (apiState ?s, l @ [queryOf rq ns x]) = (r, a, (l @ [queryOf rq ns x]) @ es)"
    by (rule AskReview.IH) (use AskReview.prems(2) x in simp_all)
  then obtain s' es where run: "ownRun nm C cl i ?s s'"
    and s': "threads s' = (threads ?s)(i := Asking rq (Done r)) \<and> cacheState s' = cacheState ?s
      \<and> apiState s' = a \<and> ownCalls i s' = ownCalls i ?s @ es
      \<and> runI (reviewOf (logged (cl (rqToken rq))) rq) (ListNamespaces (logged (cl (rqToken rq)))) (k x)
          (apiState ?s, l @ [queryOf rq ns x]) = (r, a, (l @ [queryOf rq ns x]) @ es)"
    by (elim exE conjE) (rule that; (intro conjI)?; assumption)
  from s' log show ?case
    by (intro exI [of _ s'] exI [of _ "queryOf rq ns x # es"] conjI converse_rtranclp_into_rtranclp
        [of "threadStep nm C cl i", OF st run]) simp_all
next
  case (AskList k)
  obtain x a1 where x: "ListNamespaces (cl (rqToken rq)) (apiState s) = (x, a1)" by fastforce
  let ?s = "goto i (Asking rq (k x)) (record_call i (Listed x) a1 s)"
  have st: "threadStep nm C cl i s ?s" by (rule list_namespaces [where k = k and cl = cl, OF AskList.prems(1) x])
  have log: "ListNamespaces (logged (cl (rqToken rq))) (apiState s, l) = (x, a1, l @ [Listed x])"
    using x by (simp add: logged_ListNamespaces)
  have "\<exists>s' es. ownRun nm C cl i ?s s' \<and> threads s' = (threads ?s)(i := Asking rq (Done r))
      \<and> cacheState s' = cacheState ?s \<and> apiState s' = a \<and> ownCalls i s' = ownCalls i ?s @ es
      \<and> runI (reviewOf (logged (cl (rqToken rq))) rq) (ListNamespaces (logged (cl (rqToken rq)))) (k x)
          (apiState ?s, l @ [Listed x]) = (r, a, (l @ [Listed x]) @ es)"
    by (rule AskList.IH) (use AskList.prems(2) x in simp_all)
  then obtain s' es where run: "ownRun nm C cl i ?s s'"
    and s': "threads s' = (threads ?s)(i := Asking rq (Done r)) \<and> cacheState s' = cacheState ?s
      \<and> apiState s' = a \<and> ownCalls i s' = ownCalls i ?s @ es
      \<and> runI (reviewOf (logged (cl (rqToken rq))) rq) (ListNamespaces (logged (cl (rqToken rq)))) (k x)
          (apiState ?s, l @ [Listed x]) = (r, a, (l @ [Listed x]) @ es)"
    by (elim exE conjE) (rule that; (intro conjI)?; assumption)
  from s' log show ?case
    by (intro exI [of _ s'] exI [of _ "Listed x # es"] conjI converse_rtranclp_into_rtranclp
        [of "threadStep nm C cl i", OF st run]) simp_all
qed

lemma logged_inner:
  "runI (reviewOf (logged c) rq) (ListNamespaces (logged c)) (programOf nm rq) (a, l)
   = innerOf nm (logged c) C rq (a, l)"
  "runI (reviewOf c rq) (ListNamespaces c) (programOf nm rq) a = innerOf nm c C rq a"
proof -
  have "runI (reviewOf c' rq) (ListNamespaces c') (programOf nm rq) b = innerOf nm c' C rq b"
    for c' :: "'x Client" and b
    using runI_authorizeInner [of "New c' C (rqMatcher rq)" "rqUser rq" "sort_Strings (rqGroups rq)" "rqVerb rq"
        "rqResource rq" "rqName rq" "rqApiGroup rq" nm "rqNamespaces rq" "rqMetadataOnly rq" b]
    unfolding innerOf_def programOf_def reviewOf_def New_def Authorizer.select_convs .
  note run = this
  show "runI (reviewOf (logged c) rq) (ListNamespaces (logged c)) (programOf nm rq) (a, l)
      = innerOf nm (logged c) C rq (a, l)" by (rule run)
  show "runI (reviewOf c rq) (ListNamespaces c) (programOf nm rq) a = innerOf nm c C rq a" by (rule run)
qed

text \<open>A call of Authorize is the run of a thread that nothing interrupts.\<close>

lemma authorizeWhole_ownRun:
  assumes "threads s i = Received rq"
    and "authorizeWhole nm (cl (rqToken rq)) C rq (cacheState s, apiState s) = (r, c, a)"
  shows "\<exists>s' es. ownRun nm C cl i s s' \<and> threads s' = (threads s)(i := Answered rq r)
    \<and> cacheState s' = c \<and> apiState s' = a \<and> ownCalls i s' = ownCalls i s @ es
    \<and> authorizeWhole nm (logged (cl (rqToken rq))) C rq (cacheState s, apiState s, []) = (r, c, a, es)"
proof (cases "acceptedVerb rq")
  case False
  with assms(2) threadStep.refuse [OF assms(1) False, of nm C cl] show ?thesis
    by (intro exI [of _ "goto i (Answered rq r) s"] exI [of _ "[]"]) (auto simp: authorizeWhole_eq)
next
  case True
  obtain x c1 where get: "cacheGet C (cacheState s) (requestKey rq) = (x, c1)" by fastforce
  show ?thesis
  proof (cases x)
    case (Inl err)
    with True assms(2) get threadStep.fetch_error [OF assms(1) True get [unfolded Inl], of nm cl] show ?thesis
      by (intro exI [of _ "goto i (Answered rq r) (s\<lparr>cacheState := c1\<rparr>)"] exI [of _ "[]"])
        (auto simp: authorizeWhole_eq)
  next
    case (Inr p)
    obtain res ok where p: "p = (res, ok)" by fastforce
    show ?thesis
    proof (cases ok)
      case ok: True
      with get Inr p have get': "cacheGet C (cacheState s) (requestKey rq) = (Inr (res, True), c1)" by simp
      with True assms(2) threadStep.hit [OF assms(1) True get', of nm cl] show ?thesis
        by (intro exI [of _ "goto i (Answered rq r) (s\<lparr>cacheState := c1\<rparr>)"] exI [of _ "[]"])
          (auto simp: authorizeWhole_eq)
    next
      case False
      with get Inr p have get': "cacheGet C (cacheState s) (requestKey rq) = (Inr (res, False), c1)" by simp
      obtain y a1 where y: "innerOf nm (cl (rqToken rq)) C rq (apiState s) = (y, a1)" by fastforce
      let ?s1 = "goto i (Asking rq (programOf nm rq)) (s\<lparr>cacheState := c1\<rparr>)"
      have first: "threadStep nm C cl i s ?s1" by (rule miss [OF assms(1) True get'])
      have asking: "threads ?s1 i = Asking rq (programOf nm rq)" by simp
      from ownRun_interaction [OF asking, of cl y a1 nm C "[]"] obtain s2 es where
        s2: "ownRun nm C cl i ?s1 s2" "threads s2 = (threads s)(i := Asking rq (Done y))"
        "cacheState s2 = c1" "apiState s2 = a1" "ownCalls i s2 = ownCalls i s @ es"
        and log: "innerOf nm (logged (cl (rqToken rq))) C rq (apiState s, []) = (y, a1, es)"
        using y by (auto simp: logged_inner [where C = C])
      have before: "ownRun nm C cl i s s2" by (rule converse_rtranclp_into_rtranclp [OF first s2(1)])
      have at: "threads s2 i = Asking rq (Done y)" using s2(2) by simp
      define s3 where "s3 = goto i (Answered rq y)
        (case y of Inl err \<Rightarrow> s2 | Inr res' \<Rightarrow> s2\<lparr>cacheState := snd (cacheSet C c1 (requestKey rq) res')\<rparr>)"
      have "threadStep nm C cl i s2 s3"
      proof (cases y)
        case (Inl err)
        from threadStep.fail [OF at [unfolded Inl], of nm C cl] Inl show ?thesis by (simp add: s3_def)
      next
        case (Inr res')
        obtain e c2 where "cacheSet C (cacheState s2) (requestKey rq) res' = (e, c2)" by fastforce
        from threadStep.store [OF at [unfolded Inr] this, of nm cl] this Inr s2(3) show ?thesis
          by (simp add: s3_def)
      qed
      with before have "ownRun nm C cl i s s3" by (rule rtranclp.rtrancl_into_rtrancl)
      moreover have "threads s3 = (threads s)(i := Answered rq y)" "apiState s3 = a1"
        "ownCalls i s3 = ownCalls i s @ es"
        "cacheState s3 = (case y of Inl err \<Rightarrow> c1 | Inr res' \<Rightarrow> snd (cacheSet C c1 (requestKey rq) res'))"
        using s2(2-5) by (cases y; simp add: s3_def)+
      moreover have "authorizeWhole nm (cl (rqToken rq)) C rq (cacheState s, apiState s)
          = (y, cacheState s3, a1)"
        using True get' y calculation(5) by (cases y) (simp_all add: authorizeWhole_eq)
      moreover have "authorizeWhole nm (logged (cl (rqToken rq))) C rq (cacheState s, apiState s, [])
          = (y, cacheState s3, a1, es)"
        using True get' log calculation(5) by (cases y) (simp_all add: authorizeWhole_eq)
      ultimately show ?thesis using assms(2) by (intro exI [of _ s3] exI [of _ es]) simp
    qed
  qed
qed

section \<open>Properties\<close>

text \<open>One request served from scratch and a second one like it served from the cache.\<close>

definition exampleAuthz :: authzRequest where
  "exampleAuthz = \<lparr>rqToken = ''tok'', rqUser = ''joe'',
     rqGroups = [''dev''], rqVerb = CreateVerb, rqResource = ''application'', rqName = ''logs'',
     rqApiGroup = ''loki.grafana.com'', rqNamespaces = [], rqMetadataOnly = False,
     rqMatcher = exampleMatcher\<rparr>"

abbreviation exampleClients :: "string \<Rightarrow> unit Client" where
  "exampleClients \<equiv> (\<lambda>_. asClient exampleClient)"

lemma exampleAuthz_accepted: "acceptedVerb exampleAuthz"
  by (simp add: acceptedVerb_def exampleAuthz_def)

text \<open>Its program: one review, whose answer is the result.\<close>

definition exampleAfter :: "go_error + bool \<Rightarrow> interaction" where
  "exampleAfter x = (case x of
       Inl err \<Rightarrow> Done (Inl (StatusCodeError (wrapf ''cluster-wide SAR failed'' err) StatusUnauthorized))
     | Inr allow \<Rightarrow> Done (Inr (minimalDataResponseV1 allow)))"

lemma exampleAuthz_program: "programOf nm exampleAuthz = AskReview [] exampleAfter"
  by (simp add: programOf_def authorizeInnerI_def exampleAuthz_def exampleAfter_def fun_eq_iff split: sum.split)

lemma exampleAuthz_review: "reviewOf (asClient exampleClient) exampleAuthz () [] = (Inr False, ())"
  by (simp add: reviewOf_def exampleAuthz_def asClient_def client_AccessReview_def subjectAccessReview_def
      exampleClient_def exampleApi_def)

lemma exampleAfter_False: "exampleAfter (Inr False) = Done (Inr (minimalDataResponseV1 False))"
  by (simp add: exampleAfter_def)

text \<open>The stages of thread 0, and a second thread once it is through.\<close>

definition exampleStage :: "'c \<Rightarrow> 'c \<Rightarrow> nat \<Rightarrow> ('c, unit) server" where
  "exampleStage c0 c1 k =
     (let d = Inr (minimalDataResponseV1 False); s = startServer c0 ();
          ask = [(0, (), queryOf exampleAuthz [] (Inr False))]
      in if k = 0 then s
         else if k = 1 then goto 0 (Received exampleAuthz) s
         else if k = 2 then goto 0 (Asking exampleAuthz (AskReview [] exampleAfter)) s
         else if k = 3 then goto 0 (Asking exampleAuthz (Done d)) (s\<lparr>calls := ask\<rparr>)
         else goto 0 (Answered exampleAuthz d) (s\<lparr>cacheState := c1, calls := ask\<rparr>))"

lemma exampleStage_step:
  assumes "cacheGet C c0 (requestKey exampleAuthz) = (Inr (x, False), c0)"
    and "cacheSet C c0 (requestKey exampleAuthz) (minimalDataResponseV1 False) = (e, c1)"
    and "k < 4"
  shows "serverStep nm C exampleClients changes loses (exampleStage c0 c1 k) (exampleStage c0 c1 (Suc k))"
proof -
  let ?step = "serverStep nm C exampleClients changes loses" and ?s = "exampleStage c0 c1"
  consider "k = 0" | "k = 1" | "k = 2" | "k = 3" using assms(3) by linarith
  then show ?thesis
  proof cases
    case 1
    have "?step (?s 0) (goto 0 (Received exampleAuthz) (?s 0))"
      by (rule arrive) (simp add: exampleStage_def Let_def)
    with 1 show ?thesis by (simp add: exampleStage_def Let_def)
  next
    case 2
    have "?step (?s 1) (goto 0 (Asking exampleAuthz (programOf nm exampleAuthz)) ((?s 1)\<lparr>cacheState := c0\<rparr>))"
      by (rule own, rule miss)
        (simp_all add: exampleStage_def startServer_def exampleAuthz_accepted assms(1) Let_def)
    with 2 show ?thesis by (simp add: exampleStage_def startServer_def exampleAuthz_program Let_def)
  next
    case 3
    have "?step (?s 2) (goto 0 (Asking exampleAuthz (exampleAfter (Inr False)))
        (record_call 0 (queryOf exampleAuthz [] (Inr False)) () (?s 2)))"
      by (rule own, rule review) (simp_all add: exampleStage_def startServer_def exampleAuthz_review Let_def)
    with 3 show ?thesis by (simp add: exampleStage_def startServer_def exampleAfter_False Let_def numeral_2_eq_2)
  next
    case 4
    have "?step (?s 3) (goto 0 (Answered exampleAuthz (Inr (minimalDataResponseV1 False))) ((?s 3)\<lparr>cacheState := c1\<rparr>))"
      by (rule own, rule store [where e = e])
        (simp_all add: exampleStage_def startServer_def assms(2) Let_def)
    with 4 show ?thesis by (simp add: exampleStage_def startServer_def Let_def)
  qed
qed

lemma exampleStage_run:
  assumes "cacheGet C c0 (requestKey exampleAuthz) = (Inr (x, False), c0)"
    and "cacheSet C c0 (requestKey exampleAuthz) (minimalDataResponseV1 False) = (e, c1)"
    and "k \<le> 4"
  shows "serverRun nm C exampleClients changes loses (startServer c0 ()) (exampleStage c0 c1 k)"
  using assms(3)
proof (induction k)
  case 0
  show ?case by (simp add: exampleStage_def)
next
  case (Suc k)
  then show ?case
    using exampleStage_step [OF assms(1,2), of k nm changes loses] by (auto intro: rtranclp.rtrancl_into_rtrancl)
qed

lemma example_serving:
  assumes "cacheGet C c0 (requestKey exampleAuthz) = (Inr (x, False), c0)"
    and "cacheSet C c0 (requestKey exampleAuthz) (minimalDataResponseV1 False) = (e, c1)"
    and "cacheGet C c1 (requestKey exampleAuthz) = (Inr (minimalDataResponseV1 False, True), c1)"
  shows "\<exists>s. serverRun nm C exampleClients changes loses (startServer c0 ()) s
    \<and> threads s 1 = Answered exampleAuthz (Inr (minimalDataResponseV1 False)) \<and> ownCalls 1 s = []
    \<and> (\<forall>j rq res. threads s j = Answered rq (Inr res) \<longrightarrow> res = minimalDataResponseV1 False)"
proof -
  let ?step = "serverStep nm C exampleClients changes loses" and ?d = "minimalDataResponseV1 False"
  let ?s4 = "exampleStage c0 c1 4"
  let ?s5 = "goto 1 (Received exampleAuthz) ?s4"
  let ?s6 = "goto 1 (Answered exampleAuthz (Inr ?d)) (?s5\<lparr>cacheState := c1\<rparr>)"
  have "?step ?s4 ?s5" by (rule arrive) (simp add: exampleStage_def Let_def)
  moreover have "?step ?s5 ?s6"
    by (rule own, rule hit) (use assms(3) exampleAuthz_accepted in \<open>simp_all add: exampleStage_def Let_def\<close>)
  ultimately have "serverRun nm C exampleClients changes loses (startServer c0 ()) ?s6"
    using exampleStage_run [OF assms(1,2), of 4 nm changes loses] by (simp add: rtranclp.rtrancl_into_rtrancl)
  moreover have "threads ?s6 1 = Answered exampleAuthz (Inr ?d)" by simp
  moreover have "ownCalls 1 ?s6 = []" by (simp add: ownCalls_def exampleStage_def Let_def)
  moreover have "\<forall>j rq res. threads ?s6 j = Answered rq (Inr res) \<longrightarrow> res = ?d"
    by (simp add: exampleStage_def startServer_def Let_def)
  ultimately show ?thesis by blast
qed

text \<open>The whole execution: nothing happens after the answer.\<close>

definition exampleState :: "nat \<Rightarrow> (nat, unit) server" where
  "exampleState k = exampleStage 0 1 k"

lemma exampleState_execution: "execution anyNewMatcher missCache exampleClients (=) (=) exampleState"
  unfolding execution_def
proof
  fix k :: nat
  show "serverStep anyNewMatcher missCache exampleClients (=) (=) (exampleState k) (exampleState (Suc k))"
  proof (cases "k < 4")
    case True
    have get: "cacheGet missCache 0 (requestKey exampleAuthz) = (Inr (emptyResponse, False), 0)"
      and set: "cacheSet missCache 0 (requestKey exampleAuthz) (minimalDataResponseV1 False) = (None, 1)"
      by (simp_all add: missCache_def)
    from exampleStage_step [OF get set True] show ?thesis by (simp add: exampleState_def)
  next
    case False
    then have same: "exampleState (Suc k) = exampleState k" "(exampleState k)\<lparr>apiState := ()\<rparr> = exampleState k"
      by (simp_all add: exampleState_def exampleStage_def startServer_def Let_def)
    have "serverStep anyNewMatcher missCache exampleClients (=) (=) (exampleState k)
        ((exampleState k)\<lparr>apiState := ()\<rparr>)" by (rule policy) simp
    then show ?thesis by (simp only: same)
  qed
qed

lemma exampleState_start: "exampleState 0 = startServer 0 ()"
  by (simp add: exampleState_def exampleStage_def)

lemma exampleState_received: "threads (exampleState 1) 0 = Received exampleAuthz"
  by (simp add: exampleState_def exampleStage_def Let_def)

lemma exampleState_notStuck: "notStuck 0 exampleState"
  unfolding notStuck_def
proof (intro allI impI)
  fix k
  assume "pending (threads (exampleState k) 0)"
  then have "k \<le> 3"
    by (cases "k \<le> 3") (auto simp: exampleState_def exampleStage_def Let_def)
  moreover have "threads (exampleState (Suc 3)) 0 \<noteq> threads (exampleState 3) 0"
    by (simp add: exampleState_def exampleStage_def Let_def)
  ultimately show "\<exists>l\<ge>k. threads (exampleState (Suc l)) 0 \<noteq> threads (exampleState l) 0" by blast
qed

text \<open>
  C5: a shared cache justifies its answers. Run any requests at once over an in-memory cache
  that was empty at first, with the single calls of the API server interleaved in any order, with
  changes of its policy and losses of cache entries in between, and calls that never return. Take
  any response that a thread was given. Then some thread of this run, the same or another, was given
  this response for a request with the same key, and out of its own calls: authorizeInner returns it
  when it is given the answers recorded for that thread, and asks for exactly these; they back it;
  and each of them is what the API server answered to the client of that request's token, in a state
  it had during the run while the thread was asking. When neither request has separators in its
  fields, the two are the same, as far as the key tells requests apart. And the response has the type
  of an answer.
\<close>

theorem serving_answers_justified_inmemory:
  assumes "ttlContract tc view" "onlyLoses (\<lambda>_. ttlContract tc view) (storedBy cd view) loses"
    and "newMatcherContract nm" "\<forall>k res. \<not> storedBy cd view c0 k res"
    and "serverRun nm (inmemory cd tc) cl changes loses (startServer c0 a0) s"
    and "\<forall>j rq res. threads s j = Answered rq (Inr res) \<longrightarrow> codecKeeps cd res"
    and "threads s i = Answered rq (Inr res)"
  shows "justified nm (inmemory cd tc) cl (serverRun nm (inmemory cd tc) cl changes loses)
      (startServer c0 a0) s rq res
    \<and> responseType res"
  by (rule inmemoryCache.serverRun_justified [OF assms(3,5,2,1,4,6,7)])

theorem serving_answers_justified_inmemory_witness:
  "\<exists>s. threads s 1 = Answered exampleAuthz (Inr (minimalDataResponseV1 False)) \<and> ownCalls 1 s = []
     \<and> justified anyNewMatcher (inmemory opaCodec mapTtlcache) exampleClients
         (serverRun anyNewMatcher (inmemory opaCodec mapTtlcache) exampleClients (=) (=))
         (startServer Map.empty ()) s exampleAuthz (minimalDataResponseV1 False)"
proof -
  have keeps: "codecKeeps opaCodec (minimalDataResponseV1 False)"
    using codecKeeps_opaCodec [of Deny] by simp
  then obtain b where b: "toJSON opaCodec (minimalDataResponseV1 False) = Inr b"
    "fromJSON opaCodec b = Inr (minimalDataResponseV1 False)"
    using fromJSON_toJSON by (auto simp: codecKeeps_def toJSON_Inr split: sum.splits)
  obtain s where s: "serverRun anyNewMatcher (inmemory opaCodec mapTtlcache) exampleClients (=) (=)
      (startServer Map.empty ()) s"
    "threads s 1 = Answered exampleAuthz (Inr (minimalDataResponseV1 False))" "ownCalls 1 s = []"
    "\<forall>j rq res. threads s j = Answered rq (Inr res) \<longrightarrow> res = minimalDataResponseV1 False"
    using example_serving [of "inmemory opaCodec mapTtlcache" Map.empty emptyResponse None
        "Map.empty(requestKey exampleAuthz \<mapsto> b)" anyNewMatcher "(=)" "(=)"] b
    by (auto simp: inmemory_def inmemory_Get_def inmemory_Set_def mapTtlcache_def)
  have loses: "onlyLoses (\<lambda>_. ttlContract mapTtlcache id) (storedBy opaCodec id) (=)"
    and empty: "\<forall>k res. \<not> storedBy opaCodec id Map.empty k res"
    and codec: "\<forall>j rq res. threads s j = Answered rq (Inr res) \<longrightarrow> codecKeeps opaCodec res"
    using s(4) keeps by (auto simp: onlyLoses_def storedBy_def)
  from serving_answers_justified_inmemory [OF ttlContract_mapTtlcache loses newMatcherContract_any empty s(1) codec s(2)]
    s(2,3) show ?thesis by blast
qed

text \<open>
  C24: the same over memcached, whose operations may also fail.
\<close>

theorem serving_answers_justified_memcached:
  assumes "mcContract mc view" "onlyLoses (\<lambda>_. mcContract mc view) (storedBy cd view) loses"
    and "newMatcherContract nm" "\<forall>k res. \<not> storedBy cd view c0 k res"
    and "serverRun nm (memcache cd mc) cl changes loses (startServer c0 a0) s"
    and "\<forall>j rq res. threads s j = Answered rq (Inr res) \<longrightarrow> codecKeeps cd res"
    and "threads s i = Answered rq (Inr res)"
  shows "justified nm (memcache cd mc) cl (serverRun nm (memcache cd mc) cl changes loses)
      (startServer c0 a0) s rq res
    \<and> responseType res"
  by (rule memcachedCache.serverRun_justified [OF assms(3,5,2,1,4,6,7)])

theorem serving_answers_justified_memcached_witness:
  "\<exists>s. threads s 1 = Answered exampleAuthz (Inr (minimalDataResponseV1 False)) \<and> ownCalls 1 s = []
     \<and> justified anyNewMatcher (memcache opaCodec mapMcache) exampleClients
         (serverRun anyNewMatcher (memcache opaCodec mapMcache) exampleClients (=) (=))
         (startServer Map.empty ()) s exampleAuthz (minimalDataResponseV1 False)"
proof -
  have keeps: "codecKeeps opaCodec (minimalDataResponseV1 False)"
    using codecKeeps_opaCodec [of Deny] by simp
  then obtain b where b: "toJSON opaCodec (minimalDataResponseV1 False) = Inr b"
    "fromJSON opaCodec b = Inr (minimalDataResponseV1 False)"
    using fromJSON_toJSON by (auto simp: codecKeeps_def toJSON_Inr split: sum.splits)
  obtain s where s: "serverRun anyNewMatcher (memcache opaCodec mapMcache) exampleClients (=) (=)
      (startServer Map.empty ()) s"
    "threads s 1 = Answered exampleAuthz (Inr (minimalDataResponseV1 False))" "ownCalls 1 s = []"
    "\<forall>j rq res. threads s j = Answered rq (Inr res) \<longrightarrow> res = minimalDataResponseV1 False"
    using example_serving [of "memcache opaCodec mapMcache" Map.empty emptyResponse None
        "Map.empty(requestKey exampleAuthz \<mapsto> b)" anyNewMatcher "(=)" "(=)"] b
    by (auto simp: memcache_def memcache_Get_def memcache_Set_def mapMcache_def)
  have loses: "onlyLoses (\<lambda>_. mcContract mapMcache id) (storedBy opaCodec id) (=)"
    and empty: "\<forall>k res. \<not> storedBy opaCodec id Map.empty k res"
    and codec: "\<forall>j rq res. threads s j = Answered rq (Inr res) \<longrightarrow> codecKeeps opaCodec res"
    using s(4) keeps by (auto simp: onlyLoses_def storedBy_def)
  from serving_answers_justified_memcached [OF mcContract_mapMcache loses newMatcherContract_any empty s(1) codec s(2)]
    s(2,3) show ?thesis by blast
qed



text \<open>
  C12: Authorize is what a thread does when nothing interrupts it. Take only steps of the
  thread of a request, from any state of the server. They lead to the result of Authorize, to the
  cache it leaves and to the state of the API server it leaves, through the calls that it makes, in
  the same order; no other thread is touched; and it is the only end that steps of this thread alone
  can lead to.
\<close>

theorem Authorize_is_the_run:
  assumes "threads s i = Received rq"
    and "authorizeWhole nm (cl (rqToken rq)) C rq (cacheState s, apiState s) = (r, c, a)"
  shows "\<exists>s' es. ownRun nm C cl i s s' \<and> threads s' = (threads s)(i := Answered rq r)
    \<and> cacheState s' = c \<and> apiState s' = a \<and> ownCalls i s' = ownCalls i s @ es
    \<and> authorizeWhole nm (logged (cl (rqToken rq))) C rq (cacheState s, apiState s, []) = (r, c, a, es)
    \<and> (\<forall>s''. ownRun nm C cl i s s'' \<and> (\<exists>rq' r'. threads s'' i = Answered rq' r') \<longrightarrow> s'' = s')"
proof -
  obtain s' es where s': "ownRun nm C cl i s s'" "threads s' = (threads s)(i := Answered rq r)"
    "cacheState s' = c" "apiState s' = a" "ownCalls i s' = ownCalls i s @ es"
    "authorizeWhole nm (logged (cl (rqToken rq))) C rq (cacheState s, apiState s, []) = (r, c, a, es)"
    using authorizeWhole_ownRun [where cl = cl, OF assms] by blast
  have "s'' = s'" if "ownRun nm C cl i s s''" "threads s'' i = Answered rq' r'" for s'' rq' r'
    by (rule ownRun_unique [OF that s'(1), of rq r]) (simp add: s'(2))
  with s' show ?thesis by blast
qed

theorem Authorize_is_the_run_witness:
  "\<exists>s'. ownRun anyNewMatcher missCache exampleClients 0 (exampleState 1) s' \<and> cacheState s' = 1
     \<and> threads s' 0 = Answered exampleAuthz (Inr (minimalDataResponseV1 False))
     \<and> ownCalls 0 s' = [queryOf exampleAuthz [] (Inr False)]"
proof -
  have inner: "innerOf anyNewMatcher (asClient exampleClient) missCache exampleAuthz () = (Inr (minimalDataResponseV1 False), ())"
    "innerOf anyNewMatcher (logged (asClient exampleClient)) missCache exampleAuthz ((), [])
      = (Inr (minimalDataResponseV1 False), (), [queryOf exampleAuthz [] (Inr False)])"
    by (simp_all add: innerOf_def authorizeInner_def New_def exampleAuthz_def logged_def queryOf_def asClient_def
        client_AccessReview_def subjectAccessReview_def exampleClient_def exampleApi_def)
  have at: "cacheState (exampleState 1) = 0" "ownCalls 0 (exampleState 1) = []"
    by (simp_all add: exampleState_def exampleStage_def Let_def)
  have "authorizeWhole anyNewMatcher (exampleClients (rqToken exampleAuthz)) missCache exampleAuthz
      (cacheState (exampleState 1), apiState (exampleState 1)) = (Inr (minimalDataResponseV1 False), 1, ())"
    using inner(1) exampleAuthz_accepted at by (simp add: authorizeWhole_eq missCache_def)
  from Authorize_is_the_run [where cl = exampleClients, OF exampleState_received this] obtain s' es where
    "ownRun anyNewMatcher missCache exampleClients 0 (exampleState 1) s'"
    "threads s' 0 = Answered exampleAuthz (Inr (minimalDataResponseV1 False))" "cacheState s' = 1"
    "ownCalls 0 s' = es"
    "authorizeWhole anyNewMatcher (logged (asClient exampleClient)) missCache exampleAuthz
      (cacheState (exampleState 1), apiState (exampleState 1), []) = (Inr (minimalDataResponseV1 False), 1, (), es)"
    using at by auto
  with inner(2) exampleAuthz_accepted at show ?thesis by (auto simp: authorizeWhole_eq missCache_def)
qed

text \<open>
  C11: a request costs what it must and no more. In any execution of the server, however long
  and whatever the others do, a thread takes finitely many steps; and at every moment the calls it
  has made are its plan so far: only the reviews of this user, groups, verb and resource and at most
  one list; the cluster scope is reviewed first and then the candidate namespaces, each once and in
  order (those requested, or those listed when a metadata request names none), so there are at most
  two calls more than candidates; none is made after one that failed; a create request makes one.
\<close>

theorem serving_terminates:
  assumes "execution nm C cl changes loses f" "f 0 = startServer c0 a0"
  shows "finite {k. threads (f (Suc k)) i \<noteq> threads (f k) i}
    \<and> (\<forall>k rq. requestOf (threads (f k) i) = Some rq \<longrightarrow>
         plannedCalls (queryOf rq) (rqVerb rq) (rqNamespaces rq) (rqMetadataOnly rq) (ownCalls i (f k)))"
  using finite_moves [OF assms(1), of 0 i] execution_planned [OF assms] by simp

theorem serving_terminates_witness:
  "finite {k. threads (exampleState (Suc k)) 0 \<noteq> threads (exampleState k) 0}
     \<and> plannedCalls (queryOf exampleAuthz) CreateVerb [] False (ownCalls 0 (exampleState 4))
     \<and> ownCalls 0 (exampleState 4) = [queryOf exampleAuthz [] (Inr False)]"
proof -
  have e: "requestOf (threads (exampleState 4) 0) = Some exampleAuthz"
    "rqVerb exampleAuthz = CreateVerb" "rqNamespaces exampleAuthz = []" "rqMetadataOnly exampleAuthz = False"
    "ownCalls 0 (exampleState 4) = [queryOf exampleAuthz [] (Inr False)]"
    by (simp_all add: exampleState_def exampleStage_def exampleAuthz_def ownCalls_def Let_def)
  note both = serving_terminates [OF exampleState_execution exampleState_start, of 0]
  from both [THEN conjunct2, rule_format, OF e(1)] have "plannedCalls (queryOf exampleAuthz) CreateVerb []
      False (ownCalls 0 (exampleState 4))" by (simp only: e(2-4))
  with both [THEN conjunct1] e(5) show ?thesis by blast
qed

text \<open>
  C9: a request is answered, and with what Authorize returns. A thread with a request always has a
  next step. Let it be scheduled and its own calls return; other threads may be stuck in theirs for
  ever. Then it gets an answer r, and at some moment since it came the cache was such that Authorize,
  run on that cache and given the answers this thread was given by the API server, returns r and asks
  for exactly those answers; and these are honest: each is what the API server answered to the client
  of its token while it was asking.
\<close>

theorem serving_answers_every_request:
  assumes "execution nm C cl changes loses f" "f 0 = startServer c0 a0" "notStuck i f"
    and "threads (f k) i = Received rq"
  shows "(\<forall>l. pending (threads (f l) i) \<longrightarrow> (\<exists>s'. threadStep nm C cl i (f l) s'))
    \<and> (\<exists>l r j c. k \<le> j \<and> j < l \<and> threads (f l) i = Answered rq r
        \<and> authorizeWhole nm answering C rq (cacheState (f j), ownCalls i (f l)) = (r, c, [])
        \<and> askedIn cl (serverRun nm C cl changes loses) (f 0) (f l) i rq)"
proof -
  from assms(4) eventually_answered [OF assms(1,3), of k rq] obtain l r where
    l: "k < l" "threads (f l) i = Answered rq r" by auto
  with execution_served [OF assms(1,2,4), of l] obtain j c where "k \<le> j" "j < l"
    "authorizeWhole nm answering C rq (cacheState (f j), ownCalls i (f l)) = (r, c, [])"
    by (auto simp: servedSince_def)
  moreover have "askedIn cl (serverRun nm C cl changes loses) (f 0) (f l) i rq"
    using serverRun_asked [of nm C cl changes loses c0 a0 "f l" i rq] execution_run [OF assms(1), of 0 l] l(2)
    by (simp add: assms(2))
  ultimately show ?thesis using l(2) pending_enabled by blast
qed

theorem serving_answers_every_request_witness:
  "\<exists>l r. 1 < l \<and> threads (exampleState l) 0 = Answered exampleAuthz r"
  using serving_answers_every_request
    [OF exampleState_execution exampleState_start exampleState_notStuck exampleState_received]
  by (meson le_less_trans)

end
