(* ===== verification/Counterfeiter.thy ===== *)
theory Counterfeiter
  imports Go_Prelude
begin

text \<open>
  The test doubles of internal/external are generated by counterfeiter from one template: for each
  method of an interface a stub, the arguments of the calls so far, the results to return, and the
  results for single calls; and one record of the invocations for the whole fake. This theory is
  that template, over the access to a field of the fake; Fakes has the fakes themselves.

  A result is a value of type \<open>'r\<close>; a stub is a closure, a function from the arguments and the state
  \<open>'w\<close> of what it closes over (a stub that calls the fake back is not covered). A nil map is \<open>None\<close>,
  an index out of range, which panics, is \<open>None\<close> too. The values of library types, which a fake
  never looks into, are of one type \<open>'v\<close>; \<open>'v iface\<close> is an interface{} holding an argument.
\<close>

section \<open>The template\<close>

datatype 'v iface = Opaque 'v | Text string | Bytes "string option"

type_synonym ('a, 'r, 'w) stub = "'a \<Rightarrow> 'w \<Rightarrow> 'r \<times> 'w"

record ('a, 'r, 'w) spy =
  Stub :: "('a, 'r, 'w) stub option"
  argsForCall :: "'a list"
  returns :: 'r
  returnsOnCall :: "(int \<rightharpoonup> 'r) option"

definition newSpy :: "'r \<Rightarrow> ('a, 'r, 'w) spy" where
  "newSpy zero = \<lparr>Stub = None, argsForCall = [], returns = zero, returnsOnCall = None\<rparr>"

type_synonym 'v invocations = "(string \<rightharpoonup> 'v iface list list) option"

definition recordInvocation :: "'v invocations \<Rightarrow> string \<Rightarrow> 'v iface list \<Rightarrow> 'v invocations" where
  "recordInvocation ivs key args =
     (let m = (case ivs of None \<Rightarrow> Map.empty | Some m \<Rightarrow> m);
          m' = (if m key = None then m(key \<mapsto> []) else m)
      in Some (m'(key \<mapsto> the (m' key) @ [args])))"

text \<open>The copy that Invocations returns is never nil.\<close>

definition Invocations :: "'v invocations \<Rightarrow> string \<rightharpoonup> 'v iface list list" where
  "Invocations ivs = (case ivs of None \<Rightarrow> Map.empty | Some m \<Rightarrow> m)"

text \<open>Access to the fields of a method in a fake: the method's own, and the invocations.\<close>

record ('f, 'v, 'a, 'r, 'w) fields =
  key :: string
  ifaces :: "'a \<Rightarrow> 'v iface list"
  getSpy :: "'f \<Rightarrow> ('a, 'r, 'w) spy"
  putSpy :: "('a, 'r, 'w) spy \<Rightarrow> 'f \<Rightarrow> 'f"
  getInv :: "'f \<Rightarrow> 'v invocations"
  putInv :: "'v invocations \<Rightarrow> 'f \<Rightarrow> 'f"

definition spyCall :: "('f, 'v, 'a, 'r, 'w) fields \<Rightarrow> 'f \<Rightarrow> 'a \<Rightarrow> 'w \<Rightarrow> 'r \<times> 'f \<times> 'w" where
  "spyCall F f args w =
     (let s = getSpy F f;
          specificReturn = (case returnsOnCall s of None \<Rightarrow> None | Some m \<Rightarrow> m (int (length (argsForCall s))));
          f1 = putSpy F (s\<lparr>argsForCall := argsForCall s @ [args]\<rparr>) f;
          f2 = putInv F (recordInvocation (getInv F f1) (key F) (ifaces F args)) f1
      in (case Stub s of
            Some stub \<Rightarrow> (let (r, w') = stub args w in (r, f2, w'))
          | None \<Rightarrow>
              (case specificReturn of
                 Some ret \<Rightarrow> (ret, f2, w)
               | None \<Rightarrow> (returns s, f2, w))))"

definition spyCallCount :: "('f, 'v, 'a, 'r, 'w) fields \<Rightarrow> 'f \<Rightarrow> nat" where
  "spyCallCount F f = length (argsForCall (getSpy F f))"

definition spyCalls :: "('f, 'v, 'a, 'r, 'w) fields \<Rightarrow> 'f \<Rightarrow> ('a, 'r, 'w) stub option \<Rightarrow> 'f" where
  "spyCalls F f stub = putSpy F ((getSpy F f)\<lparr>Stub := stub\<rparr>) f"

definition spyArgsForCall :: "('f, 'v, 'a, 'r, 'w) fields \<Rightarrow> 'f \<Rightarrow> int \<Rightarrow> 'a option" where
  "spyArgsForCall F f i =
     (let calls = argsForCall (getSpy F f)
      in if 0 \<le> i \<and> i < int (length calls) then Some (calls ! nat i) else None)"

definition spyReturns :: "('f, 'v, 'a, 'r, 'w) fields \<Rightarrow> 'f \<Rightarrow> 'r \<Rightarrow> 'f" where
  "spyReturns F f result = putSpy F ((getSpy F f)\<lparr>Stub := None, returns := result\<rparr>) f"

definition spyReturnsOnCall :: "('f, 'v, 'a, 'r, 'w) fields \<Rightarrow> 'f \<Rightarrow> int \<Rightarrow> 'r \<Rightarrow> 'f" where
  "spyReturnsOnCall F f i result =
     (let s = getSpy F f;
          m = (case returnsOnCall s of None \<Rightarrow> Map.empty | Some m \<Rightarrow> m)
      in putSpy F (s\<lparr>Stub := None, returnsOnCall := Some (m(i \<mapsto> result))\<rparr>) f)"

text \<open>The six functions the template makes of a method; without parameters it leaves out the fourth.\<close>

record ('f, 'a, 'r, 'w) fakeMethod =
  Call :: "'f \<Rightarrow> 'a \<Rightarrow> 'w \<Rightarrow> 'r \<times> 'f \<times> 'w"
  CallCount :: "'f \<Rightarrow> nat"
  Calls :: "'f \<Rightarrow> ('a, 'r, 'w) stub option \<Rightarrow> 'f"
  ArgsForCall :: "'f \<Rightarrow> int \<Rightarrow> 'a option"
  Returns :: "'f \<Rightarrow> 'r \<Rightarrow> 'f"
  ReturnsOnCall :: "'f \<Rightarrow> int \<Rightarrow> 'r \<Rightarrow> 'f"

definition fakeMethodOf :: "('f, 'v, 'a, 'r, 'w) fields \<Rightarrow> ('f, 'a, 'r, 'w) fakeMethod" where
  "fakeMethodOf F = \<lparr>Call = spyCall F, CallCount = spyCallCount F, Calls = spyCalls F,
     ArgsForCall = spyArgsForCall F, Returns = spyReturns F, ReturnsOnCall = spyReturnsOnCall F\<rparr>"

section \<open>Histories\<close>

text \<open>What was done with a method, the latest first, and what a history means.\<close>

datatype ('a, 'r, 'w) spyOp =
    OCall 'a
  | OCalls "('a, 'r, 'w) stub option"
  | OReturns 'r
  | OReturnsOnCall int 'r

fun stubOf :: "('a, 'r, 'w) spyOp list \<Rightarrow> ('a, 'r, 'w) stub option" where
  "stubOf [] = None"
| "stubOf (OCall a # h) = stubOf h"
| "stubOf (OCalls stub # h) = stub"
| "stubOf (OReturns r # h) = None"
| "stubOf (OReturnsOnCall i r # h) = None"

fun returnsOf :: "'r \<Rightarrow> ('a, 'r, 'w) spyOp list \<Rightarrow> 'r" where
  "returnsOf zero [] = zero"
| "returnsOf zero (OReturns r # h) = r"
| "returnsOf zero (op # h) = returnsOf zero h"

fun onCallOf :: "('a, 'r, 'w) spyOp list \<Rightarrow> int \<rightharpoonup> 'r" where
  "onCallOf [] = Map.empty"
| "onCallOf (OReturnsOnCall i r # h) = (onCallOf h)(i \<mapsto> r)"
| "onCallOf (op # h) = onCallOf h"

fun callsOf :: "('a, 'r, 'w) spyOp list \<Rightarrow> 'a list" where
  "callsOf [] = []"
| "callsOf (OCall a # h) = callsOf h @ [a]"
| "callsOf (op # h) = callsOf h"

text \<open>The result of a call after a history.\<close>

definition expected :: "'r \<Rightarrow> ('a, 'r, 'w) spyOp list \<Rightarrow> 'a \<Rightarrow> 'w \<Rightarrow> 'r \<times> 'w" where
  "expected zero h args w =
     (case stubOf h of
        Some stub \<Rightarrow> stub args w
      | None \<Rightarrow>
          (case onCallOf h (int (length (callsOf h))) of
             Some r \<Rightarrow> (r, w)
           | None \<Rightarrow> (returnsOf zero h, w)))"

fun perform :: "('f, 'a, 'r, 'w) fakeMethod \<Rightarrow> ('a, 'r, 'w) spyOp \<Rightarrow> 'f \<times> 'w \<Rightarrow> 'f \<times> 'w" where
  "perform M (OCall a) (f, w) = snd (Call M f a w)"
| "perform M (OCalls stub) (f, w) = (Calls M f stub, w)"
| "perform M (OReturns r) (f, w) = (Returns M f r, w)"
| "perform M (OReturnsOnCall i r) (f, w) = (ReturnsOnCall M f i r, w)"

fun performs :: "('f, 'a, 'r, 'w) fakeMethod \<Rightarrow> ('a, 'r, 'w) spyOp list \<Rightarrow> 'f \<times> 'w \<Rightarrow> 'f \<times> 'w" where
  "performs M [] st = st"
| "performs M (op # h) st = perform M op (performs M h st)"

section \<open>The laws of the fields\<close>

text \<open>
  What the template relies on: the fields of the method and the invocations are independent of each
  other. \<open>spied\<close> says what the fake holds after a history.
\<close>

lemma Invocations_recordInvocation:
  "Invocations (recordInvocation ivs k args) =
     (Invocations ivs)(k \<mapsto> (case Invocations ivs k of None \<Rightarrow> [] | Some l \<Rightarrow> l) @ [args])"
  by (auto simp: Invocations_def recordInvocation_def Let_def split: option.splits)

definition argsLog :: "('a \<Rightarrow> 'v iface list) \<Rightarrow> 'a list \<Rightarrow> 'v iface list list option" where
  "argsLog toIfaces calls = (if calls = [] then None else Some (map toIfaces calls))"

lemma argsLog_snoc:
  "argsLog g (calls @ [a]) = Some ((case argsLog g calls of None \<Rightarrow> [] | Some l \<Rightarrow> l) @ [g a])"
  by (simp add: argsLog_def)

definition spied :: "('f, 'v, 'a, 'r, 'w) fields \<Rightarrow> 'r \<Rightarrow> ('a, 'r, 'w) spyOp list \<Rightarrow> 'f \<Rightarrow> bool" where
  "spied F zero h f \<longleftrightarrow> Stub (getSpy F f) = stubOf h \<and> argsForCall (getSpy F f) = callsOf h
     \<and> returns (getSpy F f) = returnsOf zero h
     \<and> (case returnsOnCall (getSpy F f) of None \<Rightarrow> Map.empty | Some m \<Rightarrow> m) = onCallOf h"

text \<open>Reading a nil map is reading an empty one.\<close>

lemma lookup_nil:
  "(case m of None \<Rightarrow> None | Some g \<Rightarrow> g k) = (case m of None \<Rightarrow> Map.empty | Some g \<Rightarrow> g) k"
  by (cases m) simp_all

locale fake_fields =
  fixes F :: "('f, 'v, 'a, 'r, 'w) fields"
  assumes get_put [simp]: "getSpy F (putSpy F s f) = s"
    and inv_put [simp]: "getInv F (putSpy F s f) = getInv F f"
    and get_putInv [simp]: "getSpy F (putInv F i f) = getSpy F f"
    and inv_putInv [simp]: "getInv F (putInv F i f) = i"
begin

lemma spied_new: "getSpy F f = newSpy zero \<Longrightarrow> spied F zero [] f"
  by (simp add: spied_def newSpy_def)

lemma getSpy_Call:
  "getSpy F (fst (snd (spyCall F f a w))) = (getSpy F f)\<lparr>argsForCall := argsForCall (getSpy F f) @ [a]\<rparr>"
  by (auto simp: spyCall_def Let_def split: option.splits prod.splits)

lemma getInv_Call:
  "getInv F (fst (snd (spyCall F f a w))) = recordInvocation (getInv F f) (key F) (ifaces F a)"
  by (auto simp: spyCall_def Let_def split: option.splits prod.splits)

lemma spied_result:
  assumes "spied F zero h f"
  shows "fst (spyCall F f a w) = fst (expected zero h a w)"
    and "snd (snd (spyCall F f a w)) = snd (expected zero h a w)"
proof -
  have "(case returnsOnCall (getSpy F f) of None \<Rightarrow> None
      | Some m \<Rightarrow> m (int (length (argsForCall (getSpy F f))))) = onCallOf h (int (length (callsOf h)))"
    using assms by (simp add: spied_def lookup_nil)
  with assms show "fst (spyCall F f a w) = fst (expected zero h a w)"
    and "snd (snd (spyCall F f a w)) = snd (expected zero h a w)"
    by (auto simp: spyCall_def expected_def spied_def Let_def split: option.splits prod.splits)
qed

lemma spied_perform:
  "spied F zero h (fst st) \<Longrightarrow> spied F zero (op # h) (fst (perform (fakeMethodOf F) op st))"
proof (cases st; cases op)
  fix f w a
  assume "spied F zero h (fst st)" "st = (f, w)" "op = OCall a"
  then show "spied F zero (op # h) (fst (perform (fakeMethodOf F) op st))"
    using getSpy_Call [of f a w] by (simp add: spied_def fakeMethodOf_def)
next
  fix f w i r
  assume a: "spied F zero h (fst st)" "st = (f, w)" "op = OReturnsOnCall i r"
  show "spied F zero (op # h) (fst (perform (fakeMethodOf F) op st))"
    using a by (cases "returnsOnCall (getSpy F f)")
      (simp_all add: spied_def fakeMethodOf_def spyReturnsOnCall_def Let_def)
qed (auto simp: spied_def fakeMethodOf_def spyCalls_def spyReturns_def)

lemma spied_performs:
  "getSpy F f = newSpy zero \<Longrightarrow> spied F zero h (fst (performs (fakeMethodOf F) h (f, w)))"
proof (induction h)
  case Nil
  then show ?case by (simp add: spied_new)
next
  case (Cons op h)
  with spied_perform [of zero h "performs (fakeMethodOf F) h (f, w)" op] show ?case by simp
qed

text \<open>A fake used from the start does what its history says.\<close>

lemma performs_expected:
  assumes "getSpy F f = newSpy zero" "performs (fakeMethodOf F) h (f, w) = (f', w')"
  shows "fst (Call (fakeMethodOf F) f' a w') = fst (expected zero h a w')"
    and "CallCount (fakeMethodOf F) f' = length (callsOf h)"
    and "ArgsForCall (fakeMethodOf F) f' (int k) = (if k < length (callsOf h) then Some (callsOf h ! k) else None)"
proof -
  have s: "spied F zero h f'" using spied_performs [OF assms(1), of h w] assms(2) by simp
  then show "fst (Call (fakeMethodOf F) f' a w') = fst (expected zero h a w')"
    by (simp add: fakeMethodOf_def spied_result)
  from s show "CallCount (fakeMethodOf F) f' = length (callsOf h)"
    by (simp add: fakeMethodOf_def spied_def spyCallCount_def)
  from s show "ArgsForCall (fakeMethodOf F) f' (int k)
      = (if k < length (callsOf h) then Some (callsOf h ! k) else None)"
    by (simp add: fakeMethodOf_def spied_def spyArgsForCall_def)
qed

end

definition methodLog :: "('f, 'v, 'a, 'r, 'w) fields \<Rightarrow> 'f \<Rightarrow> 'v iface list list option" where
  "methodLog F f = argsLog (ifaces F) (argsForCall (getSpy F f))"

text \<open>
  A fake with several methods: \<open>log\<close> is what its invocations should be, computed from the arguments of
  the calls of all its methods. The laws say that this method's part is under its own name.
\<close>

locale logged_method = fake_fields F for F :: "('f, 'v, 'a, 'r, 'w) fields" +
  fixes log :: "'f \<Rightarrow> string \<rightharpoonup> 'v iface list list"
  assumes log_put: "log (putSpy F s f) = (log f)(key F := argsLog (ifaces F) (argsForCall s))"
    and log_putInv: "log (putInv F i f) = log f"
    and log_own: "log f (key F) = methodLog F f"
begin

lemma log_keep: "argsForCall s = argsForCall (getSpy F f) \<Longrightarrow> log (putSpy F s f) = log f"
  by (simp add: log_put methodLog_def [symmetric] log_own [symmetric])

text \<open>No operation of the method takes the invocations away from the log.\<close>

lemma perform_logged:
  assumes "Invocations (getInv F f) = log f"
  shows "Invocations (getInv F (fst (perform (fakeMethodOf F) op (f, w))))
    = log (fst (perform (fakeMethodOf F) op (f, w)))"
proof (cases op)
  case (OCall a)
  let ?s = "(getSpy F f)\<lparr>argsForCall := argsForCall (getSpy F f) @ [a]\<rparr>"
  let ?i = "recordInvocation (getInv F f) (key F) (ifaces F a)"
  have f': "fst (snd (spyCall F f a w)) = putInv F ?i (putSpy F ?s f)"
    by (auto simp: spyCall_def Let_def split: option.splits prod.splits)
  have "Invocations ?i = log (putInv F ?i (putSpy F ?s f))"
    using assms by (simp add: Invocations_recordInvocation log_putInv log_put log_own methodLog_def argsLog_snoc)
  then show ?thesis by (simp add: OCall fakeMethodOf_def f')
next
  case (OCalls stub)
  then show ?thesis using assms by (simp add: fakeMethodOf_def spyCalls_def log_keep)
next
  case (OReturns r)
  then show ?thesis using assms by (simp add: fakeMethodOf_def spyReturns_def log_keep)
next
  case (OReturnsOnCall i r)
  then show ?thesis using assms by (simp add: fakeMethodOf_def spyReturnsOnCall_def Let_def log_keep)
qed

end

end
