(* ===== verification/Fakes.thy ===== *)
theory Fakes
  imports Counterfeiter
begin

text \<open>
  The six test doubles of internal/external, as counterfeiter generates them: for each fake its
  record, its zero value, and for each method the fields that the template of Counterfeiter works
  on. \<open>fakeMethodOf\<close> of a method's fields is the method with its companions CallCount, Calls,
  ArgsForCall, Returns and ReturnsOnCall. The arguments of library types are opaque; Patch also copies
  its slice of bytes before it keeps it, which on values is the slice itself.

  Each fake has a log: the invocations it should have recorded, computed from the arguments of the
  calls of its methods.
\<close>

section \<open>FakeSubjectAccessReviewInterface\<close>

record ('v, 'w) FakeSubjectAccessReviewInterface =
  sarCreate :: "('v \<times> 'v \<times> 'v, 'v \<times> go_error option, 'w) spy"
  sarInvocations :: "'v invocations"

definition newFakeSubjectAccessReviewInterface :: "'v \<Rightarrow> ('v, 'w) FakeSubjectAccessReviewInterface" where
  "newFakeSubjectAccessReviewInterface nil = \<lparr>sarCreate = newSpy (nil, None),
     sarInvocations = None\<rparr>"

definition FakeSubjectAccessReviewInterface_Create ::
  "(('v, 'w) FakeSubjectAccessReviewInterface, 'v, 'v \<times> 'v \<times> 'v, 'v \<times> go_error option, 'w) fields" where
  "FakeSubjectAccessReviewInterface_Create = \<lparr>key = ''Create'',
     ifaces = (\<lambda>(arg1, arg2, arg3). [Opaque arg1, Opaque arg2, Opaque arg3]),
     getSpy = sarCreate, putSpy = (\<lambda>s f. f\<lparr>sarCreate := s\<rparr>),
     getInv = sarInvocations, putInv = (\<lambda>i f. f\<lparr>sarInvocations := i\<rparr>)\<rparr>"

definition sarLog :: "('v, 'w) FakeSubjectAccessReviewInterface \<Rightarrow> string \<rightharpoonup> 'v iface list list" where
  "sarLog f = Map.empty(''Create'' := methodLog FakeSubjectAccessReviewInterface_Create f)"

lemmas sarMethods =
  FakeSubjectAccessReviewInterface_Create_def

interpretation sar_Create: logged_method FakeSubjectAccessReviewInterface_Create sarLog
  by unfold_locales (simp_all add: sarMethods sarLog_def methodLog_def fun_eq_iff)

section \<open>FakeSelfSubjectAccessReviewInterface\<close>

record ('v, 'w) FakeSelfSubjectAccessReviewInterface =
  ssarCreate :: "('v \<times> 'v \<times> 'v, 'v \<times> go_error option, 'w) spy"
  ssarInvocations :: "'v invocations"

definition newFakeSelfSubjectAccessReviewInterface :: "'v \<Rightarrow> ('v, 'w) FakeSelfSubjectAccessReviewInterface" where
  "newFakeSelfSubjectAccessReviewInterface nil = \<lparr>ssarCreate = newSpy (nil, None),
     ssarInvocations = None\<rparr>"

definition FakeSelfSubjectAccessReviewInterface_Create ::
  "(('v, 'w) FakeSelfSubjectAccessReviewInterface, 'v, 'v \<times> 'v \<times> 'v, 'v \<times> go_error option, 'w) fields" where
  "FakeSelfSubjectAccessReviewInterface_Create = \<lparr>key = ''Create'',
     ifaces = (\<lambda>(arg1, arg2, arg3). [Opaque arg1, Opaque arg2, Opaque arg3]),
     getSpy = ssarCreate, putSpy = (\<lambda>s f. f\<lparr>ssarCreate := s\<rparr>),
     getInv = ssarInvocations, putInv = (\<lambda>i f. f\<lparr>ssarInvocations := i\<rparr>)\<rparr>"

definition ssarLog :: "('v, 'w) FakeSelfSubjectAccessReviewInterface \<Rightarrow> string \<rightharpoonup> 'v iface list list" where
  "ssarLog f = Map.empty(''Create'' := methodLog FakeSelfSubjectAccessReviewInterface_Create f)"

lemmas ssarMethods =
  FakeSelfSubjectAccessReviewInterface_Create_def

interpretation ssar_Create: logged_method FakeSelfSubjectAccessReviewInterface_Create ssarLog
  by unfold_locales (simp_all add: ssarMethods ssarLog_def methodLog_def fun_eq_iff)

section \<open>FakeClientSet\<close>

record ('v, 'w) FakeClientSet =
  csAuthenticationV1 :: "(unit, 'v, 'w) spy"
  csAuthorizationV1 :: "(unit, 'v, 'w) spy"
  csInvocations :: "'v invocations"

definition newFakeClientSet :: "'v \<Rightarrow> ('v, 'w) FakeClientSet" where
  "newFakeClientSet nil = \<lparr>csAuthenticationV1 = newSpy nil, csAuthorizationV1 = newSpy nil,
     csInvocations = None\<rparr>"

definition FakeClientSet_AuthenticationV1 ::
  "(('v, 'w) FakeClientSet, 'v, unit, 'v, 'w) fields" where
  "FakeClientSet_AuthenticationV1 = \<lparr>key = ''AuthenticationV1'',
     ifaces = (\<lambda>_. []),
     getSpy = csAuthenticationV1, putSpy = (\<lambda>s f. f\<lparr>csAuthenticationV1 := s\<rparr>),
     getInv = csInvocations, putInv = (\<lambda>i f. f\<lparr>csInvocations := i\<rparr>)\<rparr>"

definition FakeClientSet_AuthorizationV1 ::
  "(('v, 'w) FakeClientSet, 'v, unit, 'v, 'w) fields" where
  "FakeClientSet_AuthorizationV1 = \<lparr>key = ''AuthorizationV1'',
     ifaces = (\<lambda>_. []),
     getSpy = csAuthorizationV1, putSpy = (\<lambda>s f. f\<lparr>csAuthorizationV1 := s\<rparr>),
     getInv = csInvocations, putInv = (\<lambda>i f. f\<lparr>csInvocations := i\<rparr>)\<rparr>"

definition csLog :: "('v, 'w) FakeClientSet \<Rightarrow> string \<rightharpoonup> 'v iface list list" where
  "csLog f = Map.empty(''AuthenticationV1'' := methodLog FakeClientSet_AuthenticationV1 f,
     ''AuthorizationV1'' := methodLog FakeClientSet_AuthorizationV1 f)"

lemmas csMethods =
  FakeClientSet_AuthenticationV1_def FakeClientSet_AuthorizationV1_def

interpretation cs_AuthenticationV1: logged_method FakeClientSet_AuthenticationV1 csLog
  by unfold_locales (simp_all add: csMethods csLog_def methodLog_def fun_eq_iff)

interpretation cs_AuthorizationV1: logged_method FakeClientSet_AuthorizationV1 csLog
  by unfold_locales (simp_all add: csMethods csLog_def methodLog_def fun_eq_iff)

section \<open>FakeAuthorizationV1Interface\<close>

record ('v, 'w) FakeAuthorizationV1Interface =
  azLocalSubjectAccessReviews :: "(string, 'v, 'w) spy"
  azRESTClient :: "(unit, 'v, 'w) spy"
  azSelfSubjectAccessReviews :: "(unit, 'v, 'w) spy"
  azSelfSubjectRulesReviews :: "(unit, 'v, 'w) spy"
  azSubjectAccessReviews :: "(unit, 'v, 'w) spy"
  azInvocations :: "'v invocations"

definition newFakeAuthorizationV1Interface :: "'v \<Rightarrow> ('v, 'w) FakeAuthorizationV1Interface" where
  "newFakeAuthorizationV1Interface nil = \<lparr>azLocalSubjectAccessReviews = newSpy nil, azRESTClient = newSpy nil, azSelfSubjectAccessReviews = newSpy nil, azSelfSubjectRulesReviews = newSpy nil, azSubjectAccessReviews = newSpy nil,
     azInvocations = None\<rparr>"

definition FakeAuthorizationV1Interface_LocalSubjectAccessReviews ::
  "(('v, 'w) FakeAuthorizationV1Interface, 'v, string, 'v, 'w) fields" where
  "FakeAuthorizationV1Interface_LocalSubjectAccessReviews = \<lparr>key = ''LocalSubjectAccessReviews'',
     ifaces = (\<lambda>arg1. [Text arg1]),
     getSpy = azLocalSubjectAccessReviews, putSpy = (\<lambda>s f. f\<lparr>azLocalSubjectAccessReviews := s\<rparr>),
     getInv = azInvocations, putInv = (\<lambda>i f. f\<lparr>azInvocations := i\<rparr>)\<rparr>"

definition FakeAuthorizationV1Interface_RESTClient ::
  "(('v, 'w) FakeAuthorizationV1Interface, 'v, unit, 'v, 'w) fields" where
  "FakeAuthorizationV1Interface_RESTClient = \<lparr>key = ''RESTClient'',
     ifaces = (\<lambda>_. []),
     getSpy = azRESTClient, putSpy = (\<lambda>s f. f\<lparr>azRESTClient := s\<rparr>),
     getInv = azInvocations, putInv = (\<lambda>i f. f\<lparr>azInvocations := i\<rparr>)\<rparr>"

definition FakeAuthorizationV1Interface_SelfSubjectAccessReviews ::
  "(('v, 'w) FakeAuthorizationV1Interface, 'v, unit, 'v, 'w) fields" where
  "FakeAuthorizationV1Interface_SelfSubjectAccessReviews = \<lparr>key = ''SelfSubjectAccessReviews'',
     ifaces = (\<lambda>_. []),
     getSpy = azSelfSubjectAccessReviews, putSpy = (\<lambda>s f. f\<lparr>azSelfSubjectAccessReviews := s\<rparr>),
     getInv = azInvocations, putInv = (\<lambda>i f. f\<lparr>azInvocations := i\<rparr>)\<rparr>"

definition FakeAuthorizationV1Interface_SelfSubjectRulesReviews ::
  "(('v, 'w) FakeAuthorizationV1Interface, 'v, unit, 'v, 'w) fields" where
  "FakeAuthorizationV1Interface_SelfSubjectRulesReviews = \<lparr>key = ''SelfSubjectRulesReviews'',
     ifaces = (\<lambda>_. []),
     getSpy = azSelfSubjectRulesReviews, putSpy = (\<lambda>s f. f\<lparr>azSelfSubjectRulesReviews := s\<rparr>),
     getInv = azInvocations, putInv = (\<lambda>i f. f\<lparr>azInvocations := i\<rparr>)\<rparr>"

definition FakeAuthorizationV1Interface_SubjectAccessReviews ::
  "(('v, 'w) FakeAuthorizationV1Interface, 'v, unit, 'v, 'w) fields" where
  "FakeAuthorizationV1Interface_SubjectAccessReviews = \<lparr>key = ''SubjectAccessReviews'',
     ifaces = (\<lambda>_. []),
     getSpy = azSubjectAccessReviews, putSpy = (\<lambda>s f. f\<lparr>azSubjectAccessReviews := s\<rparr>),
     getInv = azInvocations, putInv = (\<lambda>i f. f\<lparr>azInvocations := i\<rparr>)\<rparr>"

definition azLog :: "('v, 'w) FakeAuthorizationV1Interface \<Rightarrow> string \<rightharpoonup> 'v iface list list" where
  "azLog f = Map.empty(''LocalSubjectAccessReviews'' := methodLog FakeAuthorizationV1Interface_LocalSubjectAccessReviews f,
     ''RESTClient'' := methodLog FakeAuthorizationV1Interface_RESTClient f,
     ''SelfSubjectAccessReviews'' := methodLog FakeAuthorizationV1Interface_SelfSubjectAccessReviews f,
     ''SelfSubjectRulesReviews'' := methodLog FakeAuthorizationV1Interface_SelfSubjectRulesReviews f,
     ''SubjectAccessReviews'' := methodLog FakeAuthorizationV1Interface_SubjectAccessReviews f)"

lemmas azMethods =
  FakeAuthorizationV1Interface_LocalSubjectAccessReviews_def FakeAuthorizationV1Interface_RESTClient_def
  FakeAuthorizationV1Interface_SelfSubjectAccessReviews_def FakeAuthorizationV1Interface_SelfSubjectRulesReviews_def
  FakeAuthorizationV1Interface_SubjectAccessReviews_def

interpretation az_LocalSubjectAccessReviews: logged_method FakeAuthorizationV1Interface_LocalSubjectAccessReviews azLog
  by unfold_locales (simp_all add: azMethods azLog_def methodLog_def fun_eq_iff)

interpretation az_RESTClient: logged_method FakeAuthorizationV1Interface_RESTClient azLog
  by unfold_locales (simp_all add: azMethods azLog_def methodLog_def fun_eq_iff)

interpretation az_SelfSubjectAccessReviews: logged_method FakeAuthorizationV1Interface_SelfSubjectAccessReviews azLog
  by unfold_locales (simp_all add: azMethods azLog_def methodLog_def fun_eq_iff)

interpretation az_SelfSubjectRulesReviews: logged_method FakeAuthorizationV1Interface_SelfSubjectRulesReviews azLog
  by unfold_locales (simp_all add: azMethods azLog_def methodLog_def fun_eq_iff)

interpretation az_SubjectAccessReviews: logged_method FakeAuthorizationV1Interface_SubjectAccessReviews azLog
  by unfold_locales (simp_all add: azMethods azLog_def methodLog_def fun_eq_iff)

section \<open>FakeProjectV1Client\<close>

record ('v, 'w) FakeProjectV1Client =
  pcProjects :: "(unit, 'v, 'w) spy"
  pcInvocations :: "'v invocations"

definition newFakeProjectV1Client :: "'v \<Rightarrow> ('v, 'w) FakeProjectV1Client" where
  "newFakeProjectV1Client nil = \<lparr>pcProjects = newSpy nil,
     pcInvocations = None\<rparr>"

definition FakeProjectV1Client_Projects ::
  "(('v, 'w) FakeProjectV1Client, 'v, unit, 'v, 'w) fields" where
  "FakeProjectV1Client_Projects = \<lparr>key = ''Projects'',
     ifaces = (\<lambda>_. []),
     getSpy = pcProjects, putSpy = (\<lambda>s f. f\<lparr>pcProjects := s\<rparr>),
     getInv = pcInvocations, putInv = (\<lambda>i f. f\<lparr>pcInvocations := i\<rparr>)\<rparr>"

definition pcLog :: "('v, 'w) FakeProjectV1Client \<Rightarrow> string \<rightharpoonup> 'v iface list list" where
  "pcLog f = Map.empty(''Projects'' := methodLog FakeProjectV1Client_Projects f)"

lemmas pcMethods =
  FakeProjectV1Client_Projects_def

interpretation pc_Projects: logged_method FakeProjectV1Client_Projects pcLog
  by unfold_locales (simp_all add: pcMethods pcLog_def methodLog_def fun_eq_iff)

section \<open>FakeProjectInterface\<close>

record ('v, 'w) FakeProjectInterface =
  piApply :: "('v \<times> 'v \<times> 'v, 'v \<times> go_error option, 'w) spy"
  piApplyStatus :: "('v \<times> 'v \<times> 'v, 'v \<times> go_error option, 'w) spy"
  piCreate :: "('v \<times> 'v \<times> 'v, 'v \<times> go_error option, 'w) spy"
  piDelete :: "('v \<times> string \<times> 'v, go_error option, 'w) spy"
  piDeleteCollection :: "('v \<times> 'v \<times> 'v, go_error option, 'w) spy"
  piGet :: "('v \<times> string \<times> 'v, 'v \<times> go_error option, 'w) spy"
  piList :: "('v \<times> 'v, 'v \<times> go_error option, 'w) spy"
  piPatch :: "('v \<times> string \<times> 'v \<times> string option \<times> 'v \<times> 'v, 'v \<times> go_error option, 'w) spy"
  piUpdate :: "('v \<times> 'v \<times> 'v, 'v \<times> go_error option, 'w) spy"
  piUpdateStatus :: "('v \<times> 'v \<times> 'v, 'v \<times> go_error option, 'w) spy"
  piWatch :: "('v \<times> 'v, 'v \<times> go_error option, 'w) spy"
  piInvocations :: "'v invocations"

definition newFakeProjectInterface :: "'v \<Rightarrow> ('v, 'w) FakeProjectInterface" where
  "newFakeProjectInterface nil = \<lparr>piApply = newSpy (nil, None), piApplyStatus = newSpy (nil, None), piCreate = newSpy (nil, None), piDelete = newSpy None, piDeleteCollection = newSpy None, piGet = newSpy (nil, None), piList = newSpy (nil, None), piPatch = newSpy (nil, None), piUpdate = newSpy (nil, None), piUpdateStatus = newSpy (nil, None), piWatch = newSpy (nil, None),
     piInvocations = None\<rparr>"

definition FakeProjectInterface_Apply ::
  "(('v, 'w) FakeProjectInterface, 'v, 'v \<times> 'v \<times> 'v, 'v \<times> go_error option, 'w) fields" where
  "FakeProjectInterface_Apply = \<lparr>key = ''Apply'',
     ifaces = (\<lambda>(arg1, arg2, arg3). [Opaque arg1, Opaque arg2, Opaque arg3]),
     getSpy = piApply, putSpy = (\<lambda>s f. f\<lparr>piApply := s\<rparr>),
     getInv = piInvocations, putInv = (\<lambda>i f. f\<lparr>piInvocations := i\<rparr>)\<rparr>"

definition FakeProjectInterface_ApplyStatus ::
  "(('v, 'w) FakeProjectInterface, 'v, 'v \<times> 'v \<times> 'v, 'v \<times> go_error option, 'w) fields" where
  "FakeProjectInterface_ApplyStatus = \<lparr>key = ''ApplyStatus'',
     ifaces = (\<lambda>(arg1, arg2, arg3). [Opaque arg1, Opaque arg2, Opaque arg3]),
     getSpy = piApplyStatus, putSpy = (\<lambda>s f. f\<lparr>piApplyStatus := s\<rparr>),
     getInv = piInvocations, putInv = (\<lambda>i f. f\<lparr>piInvocations := i\<rparr>)\<rparr>"

definition FakeProjectInterface_Create ::
  "(('v, 'w) FakeProjectInterface, 'v, 'v \<times> 'v \<times> 'v, 'v \<times> go_error option, 'w) fields" where
  "FakeProjectInterface_Create = \<lparr>key = ''Create'',
     ifaces = (\<lambda>(arg1, arg2, arg3). [Opaque arg1, Opaque arg2, Opaque arg3]),
     getSpy = piCreate, putSpy = (\<lambda>s f. f\<lparr>piCreate := s\<rparr>),
     getInv = piInvocations, putInv = (\<lambda>i f. f\<lparr>piInvocations := i\<rparr>)\<rparr>"

definition FakeProjectInterface_Delete ::
  "(('v, 'w) FakeProjectInterface, 'v, 'v \<times> string \<times> 'v, go_error option, 'w) fields" where
  "FakeProjectInterface_Delete = \<lparr>key = ''Delete'',
     ifaces = (\<lambda>(arg1, arg2, arg3). [Opaque arg1, Text arg2, Opaque arg3]),
     getSpy = piDelete, putSpy = (\<lambda>s f. f\<lparr>piDelete := s\<rparr>),
     getInv = piInvocations, putInv = (\<lambda>i f. f\<lparr>piInvocations := i\<rparr>)\<rparr>"

definition FakeProjectInterface_DeleteCollection ::
  "(('v, 'w) FakeProjectInterface, 'v, 'v \<times> 'v \<times> 'v, go_error option, 'w) fields" where
  "FakeProjectInterface_DeleteCollection = \<lparr>key = ''DeleteCollection'',
     ifaces = (\<lambda>(arg1, arg2, arg3). [Opaque arg1, Opaque arg2, Opaque arg3]),
     getSpy = piDeleteCollection, putSpy = (\<lambda>s f. f\<lparr>piDeleteCollection := s\<rparr>),
     getInv = piInvocations, putInv = (\<lambda>i f. f\<lparr>piInvocations := i\<rparr>)\<rparr>"

definition FakeProjectInterface_Get ::
  "(('v, 'w) FakeProjectInterface, 'v, 'v \<times> string \<times> 'v, 'v \<times> go_error option, 'w) fields" where
  "FakeProjectInterface_Get = \<lparr>key = ''Get'',
     ifaces = (\<lambda>(arg1, arg2, arg3). [Opaque arg1, Text arg2, Opaque arg3]),
     getSpy = piGet, putSpy = (\<lambda>s f. f\<lparr>piGet := s\<rparr>),
     getInv = piInvocations, putInv = (\<lambda>i f. f\<lparr>piInvocations := i\<rparr>)\<rparr>"

definition FakeProjectInterface_List ::
  "(('v, 'w) FakeProjectInterface, 'v, 'v \<times> 'v, 'v \<times> go_error option, 'w) fields" where
  "FakeProjectInterface_List = \<lparr>key = ''List'',
     ifaces = (\<lambda>(arg1, arg2). [Opaque arg1, Opaque arg2]),
     getSpy = piList, putSpy = (\<lambda>s f. f\<lparr>piList := s\<rparr>),
     getInv = piInvocations, putInv = (\<lambda>i f. f\<lparr>piInvocations := i\<rparr>)\<rparr>"

definition FakeProjectInterface_Patch ::
  "(('v, 'w) FakeProjectInterface, 'v, 'v \<times> string \<times> 'v \<times> string option \<times> 'v \<times> 'v, 'v \<times> go_error option, 'w) fields" where
  "FakeProjectInterface_Patch = \<lparr>key = ''Patch'',
     ifaces = (\<lambda>(arg1, arg2, arg3, arg4, arg5, arg6). [Opaque arg1, Text arg2, Opaque arg3, Bytes arg4, Opaque arg5, Opaque arg6]),
     getSpy = piPatch, putSpy = (\<lambda>s f. f\<lparr>piPatch := s\<rparr>),
     getInv = piInvocations, putInv = (\<lambda>i f. f\<lparr>piInvocations := i\<rparr>)\<rparr>"

definition FakeProjectInterface_Update ::
  "(('v, 'w) FakeProjectInterface, 'v, 'v \<times> 'v \<times> 'v, 'v \<times> go_error option, 'w) fields" where
  "FakeProjectInterface_Update = \<lparr>key = ''Update'',
     ifaces = (\<lambda>(arg1, arg2, arg3). [Opaque arg1, Opaque arg2, Opaque arg3]),
     getSpy = piUpdate, putSpy = (\<lambda>s f. f\<lparr>piUpdate := s\<rparr>),
     getInv = piInvocations, putInv = (\<lambda>i f. f\<lparr>piInvocations := i\<rparr>)\<rparr>"

definition FakeProjectInterface_UpdateStatus ::
  "(('v, 'w) FakeProjectInterface, 'v, 'v \<times> 'v \<times> 'v, 'v \<times> go_error option, 'w) fields" where
  "FakeProjectInterface_UpdateStatus = \<lparr>key = ''UpdateStatus'',
     ifaces = (\<lambda>(arg1, arg2, arg3). [Opaque arg1, Opaque arg2, Opaque arg3]),
     getSpy = piUpdateStatus, putSpy = (\<lambda>s f. f\<lparr>piUpdateStatus := s\<rparr>),
     getInv = piInvocations, putInv = (\<lambda>i f. f\<lparr>piInvocations := i\<rparr>)\<rparr>"

definition FakeProjectInterface_Watch ::
  "(('v, 'w) FakeProjectInterface, 'v, 'v \<times> 'v, 'v \<times> go_error option, 'w) fields" where
  "FakeProjectInterface_Watch = \<lparr>key = ''Watch'',
     ifaces = (\<lambda>(arg1, arg2). [Opaque arg1, Opaque arg2]),
     getSpy = piWatch, putSpy = (\<lambda>s f. f\<lparr>piWatch := s\<rparr>),
     getInv = piInvocations, putInv = (\<lambda>i f. f\<lparr>piInvocations := i\<rparr>)\<rparr>"

definition piLog :: "('v, 'w) FakeProjectInterface \<Rightarrow> string \<rightharpoonup> 'v iface list list" where
  "piLog f = Map.empty(''Apply'' := methodLog FakeProjectInterface_Apply f,
     ''ApplyStatus'' := methodLog FakeProjectInterface_ApplyStatus f,
     ''Create'' := methodLog FakeProjectInterface_Create f,
     ''Delete'' := methodLog FakeProjectInterface_Delete f,
     ''DeleteCollection'' := methodLog FakeProjectInterface_DeleteCollection f,
     ''Get'' := methodLog FakeProjectInterface_Get f,
     ''List'' := methodLog FakeProjectInterface_List f,
     ''Patch'' := methodLog FakeProjectInterface_Patch f,
     ''Update'' := methodLog FakeProjectInterface_Update f,
     ''UpdateStatus'' := methodLog FakeProjectInterface_UpdateStatus f,
     ''Watch'' := methodLog FakeProjectInterface_Watch f)"

lemmas piMethods =
  FakeProjectInterface_Apply_def FakeProjectInterface_ApplyStatus_def
  FakeProjectInterface_Create_def FakeProjectInterface_Delete_def
  FakeProjectInterface_DeleteCollection_def FakeProjectInterface_Get_def
  FakeProjectInterface_List_def FakeProjectInterface_Patch_def
  FakeProjectInterface_Update_def FakeProjectInterface_UpdateStatus_def
  FakeProjectInterface_Watch_def

interpretation pi_Apply: logged_method FakeProjectInterface_Apply piLog
  by unfold_locales (simp_all add: piMethods piLog_def methodLog_def fun_eq_iff)

interpretation pi_ApplyStatus: logged_method FakeProjectInterface_ApplyStatus piLog
  by unfold_locales (simp_all add: piMethods piLog_def methodLog_def fun_eq_iff)

interpretation pi_Create: logged_method FakeProjectInterface_Create piLog
  by unfold_locales (simp_all add: piMethods piLog_def methodLog_def fun_eq_iff)

interpretation pi_Delete: logged_method FakeProjectInterface_Delete piLog
  by unfold_locales (simp_all add: piMethods piLog_def methodLog_def fun_eq_iff)

interpretation pi_DeleteCollection: logged_method FakeProjectInterface_DeleteCollection piLog
  by unfold_locales (simp_all add: piMethods piLog_def methodLog_def fun_eq_iff)

interpretation pi_Get: logged_method FakeProjectInterface_Get piLog
  by unfold_locales (simp_all add: piMethods piLog_def methodLog_def fun_eq_iff)

interpretation pi_List: logged_method FakeProjectInterface_List piLog
  by unfold_locales (simp_all add: piMethods piLog_def methodLog_def fun_eq_iff)

interpretation pi_Patch: logged_method FakeProjectInterface_Patch piLog
  by unfold_locales (simp_all add: piMethods piLog_def methodLog_def fun_eq_iff)

interpretation pi_Update: logged_method FakeProjectInterface_Update piLog
  by unfold_locales (simp_all add: piMethods piLog_def methodLog_def fun_eq_iff)

interpretation pi_UpdateStatus: logged_method FakeProjectInterface_UpdateStatus piLog
  by unfold_locales (simp_all add: piMethods piLog_def methodLog_def fun_eq_iff)

interpretation pi_Watch: logged_method FakeProjectInterface_Watch piLog
  by unfold_locales (simp_all add: piMethods piLog_def methodLog_def fun_eq_iff)

section \<open>Sequences of operations\<close>

text \<open>A step of the fake with most methods: any operation of any of its methods.\<close>

inductive projectStep ::
  "('v, 'w) FakeProjectInterface \<times> 'w \<Rightarrow> ('v, 'w) FakeProjectInterface \<times> 'w \<Rightarrow> bool" where
  "projectStep st (perform (fakeMethodOf FakeProjectInterface_Apply) op st)"
| "projectStep st (perform (fakeMethodOf FakeProjectInterface_ApplyStatus) op st)"
| "projectStep st (perform (fakeMethodOf FakeProjectInterface_Create) op st)"
| "projectStep st (perform (fakeMethodOf FakeProjectInterface_Delete) op' st)"
| "projectStep st (perform (fakeMethodOf FakeProjectInterface_DeleteCollection) op'' st)"
| "projectStep st (perform (fakeMethodOf FakeProjectInterface_Get) opg st)"
| "projectStep st (perform (fakeMethodOf FakeProjectInterface_List) opl st)"
| "projectStep st (perform (fakeMethodOf FakeProjectInterface_Patch) opp st)"
| "projectStep st (perform (fakeMethodOf FakeProjectInterface_Update) op st)"
| "projectStep st (perform (fakeMethodOf FakeProjectInterface_UpdateStatus) op st)"
| "projectStep st (perform (fakeMethodOf FakeProjectInterface_Watch) opl st)"

lemmas pi_logged = pi_Apply.perform_logged pi_ApplyStatus.perform_logged pi_Create.perform_logged
  pi_Delete.perform_logged pi_DeleteCollection.perform_logged pi_Get.perform_logged
  pi_List.perform_logged pi_Patch.perform_logged pi_Update.perform_logged
  pi_UpdateStatus.perform_logged pi_Watch.perform_logged

text \<open>The invocations field is the same one for every method.\<close>

lemma pi_getInv [simp]:
  "getInv FakeProjectInterface_Apply = piInvocations" "getInv FakeProjectInterface_ApplyStatus = piInvocations"
  "getInv FakeProjectInterface_Create = piInvocations" "getInv FakeProjectInterface_Delete = piInvocations"
  "getInv FakeProjectInterface_DeleteCollection = piInvocations" "getInv FakeProjectInterface_Get = piInvocations"
  "getInv FakeProjectInterface_List = piInvocations" "getInv FakeProjectInterface_Patch = piInvocations"
  "getInv FakeProjectInterface_Update = piInvocations" "getInv FakeProjectInterface_UpdateStatus = piInvocations"
  "getInv FakeProjectInterface_Watch = piInvocations"
  by (simp_all add: piMethods)

lemma projectStep_logged:
  assumes "projectStep st st'" "Invocations (piInvocations (fst st)) = piLog (fst st)"
  shows "Invocations (piInvocations (fst st')) = piLog (fst st')"
proof -
  obtain f w where st: "st = (f, w)" by fastforce
  from assms show ?thesis
    unfolding st
    by (cases rule: projectStep.cases)
      (simp_all add: pi_logged [unfolded pi_getInv])
qed

lemma piLog_new: "Invocations (piInvocations (newFakeProjectInterface nil)) = piLog (newFakeProjectInterface nil)"
  by (simp add: newFakeProjectInterface_def Invocations_def piLog_def methodLog_def argsLog_def newSpy_def piMethods
      fun_eq_iff)

section \<open>Properties\<close>

text \<open>
  C31: a fake method means what its history says. Use a new fake of the access reviews in any
  way, with calls and new stubs and results in any order. Then the next call runs the stub, if one
  was set after the last result was; otherwise it returns the result set for a call of its number,
  otherwise the last result set, otherwise zero values. The calls are counted, and the arguments of
  each are handed back under its number.
\<close>

theorem fakeCreate_meaning:
  assumes "performs (fakeMethodOf FakeSubjectAccessReviewInterface_Create) h
      (newFakeSubjectAccessReviewInterface nil, w) = (f, w')"
  shows "fst (Call (fakeMethodOf FakeSubjectAccessReviewInterface_Create) f args w')
      = fst (expected (nil, None) h args w')
    \<and> CallCount (fakeMethodOf FakeSubjectAccessReviewInterface_Create) f = length (callsOf h)
    \<and> ArgsForCall (fakeMethodOf FakeSubjectAccessReviewInterface_Create) f (int k)
      = (if k < length (callsOf h) then Some (callsOf h ! k) else None)"
proof -
  have "getSpy FakeSubjectAccessReviewInterface_Create (newFakeSubjectAccessReviewInterface nil)
      = newSpy (nil, None)"
    by (simp add: sarMethods newFakeSubjectAccessReviewInterface_def)
  from sar_Create.performs_expected [OF this assms] show ?thesis by simp
qed

theorem fakeCreate_meaning_witness:
  "\<exists>f. performs (fakeMethodOf FakeSubjectAccessReviewInterface_Create)
       [OCall (1, 2, 3), OReturns (7, None), OReturnsOnCall 1 (8, None)]
       (newFakeSubjectAccessReviewInterface (0 :: nat), ()) = (f, ())
     \<and> fst (Call (fakeMethodOf FakeSubjectAccessReviewInterface_Create) f (4, 5, 6) ()) = (8, None)
     \<and> CallCount (fakeMethodOf FakeSubjectAccessReviewInterface_Create) f = 1"
proof -
  obtain f where run: "performs (fakeMethodOf FakeSubjectAccessReviewInterface_Create)
       [OCall (1, 2, 3), OReturns (7, None), OReturnsOnCall 1 (8, None)]
       (newFakeSubjectAccessReviewInterface (0 :: nat), ()) = (f, ())"
    by (metis (full_types) old.unit.exhaust surj_pair)
  from fakeCreate_meaning [OF run, of "(4, 5, 6)"] run show ?thesis
    by (auto simp: expected_def)
qed

text \<open>
  C32: the record of the invocations is complete and nothing else. After any sequence of
  operations on any of its eleven methods, Invocations of a new FakeProjectInterface has for each
  method that was called the arguments of its calls, in order, and no entry for any other name.
\<close>

theorem FakeProjectInterface_invocations:
  assumes "projectStep\<^sup>*\<^sup>* (newFakeProjectInterface nil, w) (f, w')"
  shows "Invocations (piInvocations f) = Map.empty
     (''Apply'' := methodLog FakeProjectInterface_Apply f,
      ''ApplyStatus'' := methodLog FakeProjectInterface_ApplyStatus f,
      ''Create'' := methodLog FakeProjectInterface_Create f,
      ''Delete'' := methodLog FakeProjectInterface_Delete f,
      ''DeleteCollection'' := methodLog FakeProjectInterface_DeleteCollection f,
      ''Get'' := methodLog FakeProjectInterface_Get f,
      ''List'' := methodLog FakeProjectInterface_List f,
      ''Patch'' := methodLog FakeProjectInterface_Patch f,
      ''Update'' := methodLog FakeProjectInterface_Update f,
      ''UpdateStatus'' := methodLog FakeProjectInterface_UpdateStatus f,
      ''Watch'' := methodLog FakeProjectInterface_Watch f)"
proof -
  have "Invocations (piInvocations (fst (f, w'))) = piLog (fst (f, w'))"
    using assms
  proof (induction rule: rtranclp_induct)
    case base
    show ?case by (simp add: piLog_new)
  next
    case (step st st')
    from projectStep_logged [OF step(2,3)] show ?case .
  qed
  then show ?thesis by (simp add: piLog_def)
qed

theorem FakeProjectInterface_invocations_witness:
  "\<exists>f. projectStep\<^sup>*\<^sup>* (newFakeProjectInterface (0 :: nat), ()) (f, ())
     \<and> Invocations (piInvocations f) ''List'' = Some [[Opaque 1, Opaque 2]]
     \<and> Invocations (piInvocations f) ''Watch'' = None"
proof -
  let ?st = "perform (fakeMethodOf FakeProjectInterface_List) (OCall (1, 2)) (newFakeProjectInterface (0 :: nat), ())"
  obtain f where f: "?st = (f, ())" by (metis (full_types) old.unit.exhaust surj_pair)
  have "projectStep (newFakeProjectInterface (0 :: nat), ()) ?st" by (rule projectStep.intros)
  then have run: "projectStep\<^sup>*\<^sup>* (newFakeProjectInterface (0 :: nat), ()) (f, ())" unfolding f by simp
  have "argsForCall (piList f) = [(1, 2)]" "argsForCall (piWatch f) = []"
    using f by (auto simp: fakeMethodOf_def spyCall_def Let_def piMethods newFakeProjectInterface_def newSpy_def)
  with FakeProjectInterface_invocations [OF run] run show ?thesis
    by (auto simp: methodLog_def argsLog_def piMethods)
qed

end
