(* ===== verification/Fake_Client.thy ===== *)
theory Fake_Client
  imports Fakes Openshift_Client
begin

text \<open>
  The client of internal/openshift over the test doubles, as its tests set them up: a chain of
  fakes that hand out one another, with a store for the objects the client and the stubs pass by
  pointer. What the tests check for one input is shown here for all inputs and stubs.
\<close>

section \<open>Values and the store\<close>

text \<open>
  The values that pass through the fakes: contexts, options, the interfaces of the other fakes,
  and pointers into the store. A review is stored with its Status.Allowed.
\<close>

datatype fakeValue =
    Nil
  | Context
  | CreateOptions
  | ListOptions
  | AuthorizationRef
  | ReviewsRef
  | SelfReviewsRef
  | ProjectsRef
  | Pointer nat

datatype object =
    ReviewObject SubjectAccessReview bool
  | SelfReviewObject SelfSubjectAccessReview bool
  | ProjectListObject "Project list"

type_synonym store = "object list"

record doubles =
  dClientSet :: "(fakeValue, store) FakeClientSet"
  dAuthorization :: "(fakeValue, store) FakeAuthorizationV1Interface"
  dReviews :: "(fakeValue, store) FakeSubjectAccessReviewInterface"
  dSelfReviews :: "(fakeValue, store) FakeSelfSubjectAccessReviewInterface"
  dProjectClient :: "(fakeValue, store) FakeProjectV1Client"
  dProjects :: "(fakeValue, store) FakeProjectInterface"
  dStore :: store

definition newDoubles :: doubles where
  "newDoubles = \<lparr>dClientSet = newFakeClientSet Nil, dAuthorization = newFakeAuthorizationV1Interface Nil,
     dReviews = newFakeSubjectAccessReviewInterface Nil,
     dSelfReviews = newFakeSelfSubjectAccessReviewInterface Nil,
     dProjectClient = newFakeProjectV1Client Nil, dProjects = newFakeProjectInterface Nil, dStore = []\<rparr>"

text \<open>A call of a nil interface, or a read through a nil pointer, which panics, is an error here.\<close>

definition panicked :: go_error where
  "panicked = Errorf ''invalid memory address or nil pointer dereference''"

definition allowedAt :: "store \<Rightarrow> fakeValue \<Rightarrow> go_error + bool" where
  "allowedAt h v =
     (case v of
        Pointer a \<Rightarrow>
          (if a < length h then
             (case h ! a of
                ReviewObject rv allowed \<Rightarrow> Inr allowed
              | SelfReviewObject rv allowed \<Rightarrow> Inr allowed
              | ProjectListObject ps \<Rightarrow> Inl panicked)
           else Inl panicked)
      | _ \<Rightarrow> Inl panicked)"

definition projectsAt :: "store \<Rightarrow> fakeValue \<Rightarrow> go_error + Project list" where
  "projectsAt h v =
     (case v of
        Pointer a \<Rightarrow>
          (if a < length h then
             (case h ! a of ProjectListObject ps \<Rightarrow> Inr ps | _ \<Rightarrow> Inl panicked)
           else Inl panicked)
      | _ \<Rightarrow> Inl panicked)"

section \<open>The chains of calls\<close>

text \<open>
  k8sClient.AuthorizationV1().SubjectAccessReviews().Create(ctx, review, opts), with the review
  allocated first, then the read of Status.Allowed.
\<close>

definition createReview :: "doubles \<Rightarrow> SubjectAccessReview \<Rightarrow> (go_error + bool) \<times> doubles" where
  "createReview d review =
     (let h0 = dStore d @ [ReviewObject review False];
          (authz, cs, h1) = Call (fakeMethodOf FakeClientSet_AuthorizationV1) (dClientSet d) () h0;
          d1 = d\<lparr>dClientSet := cs, dStore := h1\<rparr>
      in if authz \<noteq> AuthorizationRef then (Inl panicked, d1)
         else
           (let (reviews, az, h2) =
                  Call (fakeMethodOf FakeAuthorizationV1Interface_SubjectAccessReviews) (dAuthorization d1) () h1;
                d2 = d1\<lparr>dAuthorization := az, dStore := h2\<rparr>
            in if reviews \<noteq> ReviewsRef then (Inl panicked, d2)
               else
                 (let ((res, err), rs, h3) =
                        Call (fakeMethodOf FakeSubjectAccessReviewInterface_Create) (dReviews d2)
                          (Context, Pointer (length (dStore d)), CreateOptions) h2;
                      d3 = d2\<lparr>dReviews := rs, dStore := h3\<rparr>
                  in (case err of
                        Some e \<Rightarrow> (Inl e, d3)
                      | None \<Rightarrow> (allowedAt h3 res, d3)))))"

definition createSelfReview :: "doubles \<Rightarrow> SelfSubjectAccessReview \<Rightarrow> (go_error + bool) \<times> doubles" where
  "createSelfReview d review =
     (let h0 = dStore d @ [SelfReviewObject review False];
          (authz, cs, h1) = Call (fakeMethodOf FakeClientSet_AuthorizationV1) (dClientSet d) () h0;
          d1 = d\<lparr>dClientSet := cs, dStore := h1\<rparr>
      in if authz \<noteq> AuthorizationRef then (Inl panicked, d1)
         else
           (let (reviews, az, h2) =
                  Call (fakeMethodOf FakeAuthorizationV1Interface_SelfSubjectAccessReviews) (dAuthorization d1) () h1;
                d2 = d1\<lparr>dAuthorization := az, dStore := h2\<rparr>
            in if reviews \<noteq> SelfReviewsRef then (Inl panicked, d2)
               else
                 (let ((res, err), rs, h3) =
                        Call (fakeMethodOf FakeSelfSubjectAccessReviewInterface_Create) (dSelfReviews d2)
                          (Context, Pointer (length (dStore d)), CreateOptions) h2;
                      d3 = d2\<lparr>dSelfReviews := rs, dStore := h3\<rparr>
                  in (case err of
                        Some e \<Rightarrow> (Inl e, d3)
                      | None \<Rightarrow> (allowedAt h3 res, d3)))))"

definition listProjects :: "doubles \<Rightarrow> (go_error + Project list) \<times> doubles" where
  "listProjects d =
     (let (projects, pc, h1) = Call (fakeMethodOf FakeProjectV1Client_Projects) (dProjectClient d) () (dStore d);
          d1 = d\<lparr>dProjectClient := pc, dStore := h1\<rparr>
      in if projects \<noteq> ProjectsRef then (Inl panicked, d1)
         else
           (let ((res, err), ps, h2) =
                  Call (fakeMethodOf FakeProjectInterface_List) (dProjects d1) (Context, ListOptions) h1;
                d2 = d1\<lparr>dProjects := ps, dStore := h2\<rparr>
            in (case err of
                  Some e \<Rightarrow> (Inl e, d2)
                | None \<Rightarrow> (projectsAt h2 res, d2))))"

definition clientOver :: "bool \<Rightarrow> doubles client" where
  "clientOver ssar' =
     \<lparr>k8sClient = \<lparr>SubjectAccessReviews_Create = createReview, SelfSubjectAccessReviews_Create = createSelfReview\<rparr>,
      projectClient = \<lparr>Projects_List = listProjects\<rparr>, ssar = ssar'\<rparr>"

section \<open>The set-up of the tests\<close>

type_synonym createStub = "(fakeValue \<times> fakeValue \<times> fakeValue, fakeValue \<times> go_error option, store) stub"

definition connected :: doubles where
  "connected = newDoubles
     \<lparr>dClientSet := Returns (fakeMethodOf FakeClientSet_AuthorizationV1) (dClientSet newDoubles) AuthorizationRef,
      dAuthorization := Returns (fakeMethodOf FakeAuthorizationV1Interface_SelfSubjectAccessReviews)
        (Returns (fakeMethodOf FakeAuthorizationV1Interface_SubjectAccessReviews)
          (dAuthorization newDoubles) ReviewsRef) SelfReviewsRef,
      dProjectClient := Returns (fakeMethodOf FakeProjectV1Client_Projects) (dProjectClient newDoubles) ProjectsRef\<rparr>"

definition withReviews :: "createStub \<Rightarrow> createStub \<Rightarrow> doubles" where
  "withReviews stub stub' = connected
     \<lparr>dReviews := Calls (fakeMethodOf FakeSubjectAccessReviewInterface_Create) (dReviews connected) (Some stub),
      dSelfReviews := Calls (fakeMethodOf FakeSelfSubjectAccessReviewInterface_Create) (dSelfReviews connected) (Some stub')\<rparr>"

definition withProjects :: "Project list \<Rightarrow> doubles" where
  "withProjects ps = connected
     \<lparr>dProjects := Returns (fakeMethodOf FakeProjectInterface_List) (dProjects connected) (Pointer 0, None),
      dStore := [ProjectListObject ps]\<rparr>"

lemmas fake_ops = fakeMethodOf_def spyCall_def spyCalls_def spyReturns_def spyReturnsOnCall_def spyCallCount_def
  spyArgsForCall_def newSpy_def Let_def
  newFakeClientSet_def newFakeAuthorizationV1Interface_def newFakeSubjectAccessReviewInterface_def
  newFakeSelfSubjectAccessReviewInterface_def newFakeProjectV1Client_def newFakeProjectInterface_def

lemmas doubles_setup = newDoubles_def connected_def withReviews_def withProjects_def
  csMethods azMethods sarMethods ssarMethods pcMethods piMethods

text \<open>What the client's Create does with the doubles: the stub decides, and sees what the client built.\<close>

lemma createReview_withReviews:
  "fst (createReview (withReviews stub stub') review) =
     (let ((res, err), h) = stub (Context, Pointer 0, CreateOptions) [ReviewObject review False]
      in case err of Some e \<Rightarrow> Inl e | None \<Rightarrow> allowedAt h res)"
  by (simp add: createReview_def doubles_setup fake_ops split: prod.splits option.splits)

lemma createSelfReview_withReviews:
  "fst (createSelfReview (withReviews stub stub') review) =
     (let ((res, err), h) = stub' (Context, Pointer 0, CreateOptions) [SelfReviewObject review False]
      in case err of Some e \<Rightarrow> Inl e | None \<Rightarrow> allowedAt h res)"
  by (simp add: createSelfReview_def doubles_setup fake_ops split: prod.splits option.splits)

text \<open>The calls that each of the two Create methods has seen after a review.\<close>

lemma createReview_calls:
  "argsForCall (sarCreate (dReviews (snd (createReview (withReviews stub stub') review))))
     = [(Context, Pointer 0, CreateOptions)]"
  "argsForCall (ssarCreate (dSelfReviews (snd (createReview (withReviews stub stub') review)))) = []"
  by (simp_all add: createReview_def doubles_setup fake_ops split: prod.splits option.splits)

lemma createSelfReview_calls:
  "argsForCall (ssarCreate (dSelfReviews (snd (createSelfReview (withReviews stub stub') review))))
     = [(Context, Pointer 0, CreateOptions)]"
  "argsForCall (sarCreate (dReviews (snd (createSelfReview (withReviews stub stub') review)))) = []"
  by (simp_all add: createSelfReview_def doubles_setup fake_ops split: prod.splits option.splits)

lemma listProjects_withProjects: "fst (listProjects (withProjects ps)) = Inr ps"
  by (simp add: listProjects_def doubles_setup fake_ops projectsAt_def)

text \<open>The client's test of the list of namespaces, for every list.\<close>

lemma ListNamespaces_over_fakes:
  "fst (client_ListNamespaces (clientOver ssar') (withProjects ps)) = Inr (map projectName ps)"
  using listProjects_withProjects [of ps]
  by (auto simp: client_ListNamespaces_def clientOver_def projectNames_eq split: prod.splits)

section \<open>Properties\<close>

text \<open>
  C23: the tests of AccessReview, for every input and every stub. Over the doubles as the tests
  connect them, the client asks exactly once, and the one of the two fakes that its mode names; the
  stub is given a pointer to a review that holds the user and the groups of the call (a self review
  holds neither) and its attributes, not allowed yet; and the client returns what the review that
  the stub returned says, or the stub's error, wrapped.
\<close>

theorem AccessReview_over_fakes:
  assumes "client_AccessReview (clientOver ssar') (withReviews stub stub') user groups verb resource
      resourceName apiGroup namespace = (r, d)"
    and "attributes = \<lparr>raNamespace = namespace, raVerb = verb, raGroup = apiGroup, raResource = resource,
      raName = resourceName\<rparr>"
    and "(if ssar' then stub' (Context, Pointer 0, CreateOptions) [SelfReviewObject \<lparr>ssarAttributes = attributes\<rparr> False]
      else stub (Context, Pointer 0, CreateOptions)
        [ReviewObject \<lparr>sarUser = user, sarGroups = groups, sarAttributes = attributes\<rparr> False]) = ((res, err), h)"
    and "err = None \<Longrightarrow> allowedAt h res = Inr allowed"
  shows "r = (case err of
        None \<Rightarrow> Inr allowed
      | Some e \<Rightarrow> Inl (wrapf (if ssar' then ''failed to create self subject access review''
          else ''failed to create subject access review'') e))
    \<and> CallCount (fakeMethodOf FakeSubjectAccessReviewInterface_Create) (dReviews d) = (if ssar' then 0 else 1)
    \<and> CallCount (fakeMethodOf FakeSelfSubjectAccessReviewInterface_Create) (dSelfReviews d)
      = (if ssar' then 1 else 0)"
proof (cases ssar')
  case True
  let ?rv = "\<lparr>ssarAttributes = attributes\<rparr>"
  from createSelfReview_withReviews [of stub stub' ?rv] createSelfReview_calls [of stub stub' ?rv]
    assms True show ?thesis
    by (cases err) (auto simp: client_AccessReview_def selfSubjectAccessReview_def clientOver_def Let_def
        fakeMethodOf_def spyCallCount_def sarMethods ssarMethods split: prod.splits sum.splits)
next
  case False
  let ?rv = "\<lparr>sarUser = user, sarGroups = groups, sarAttributes = attributes\<rparr>"
  from createReview_withReviews [of stub stub' ?rv] createReview_calls [of stub stub' ?rv]
    assms False show ?thesis
    by (cases err) (auto simp: client_AccessReview_def subjectAccessReview_def clientOver_def Let_def
        fakeMethodOf_def spyCallCount_def sarMethods ssarMethods split: prod.splits sum.splits)
qed

text \<open>A stub that allows what it is asked.\<close>

definition allowing :: createStub where
  "allowing args h = (case args of
     (ctx, Pointer a, opts) \<Rightarrow>
       ((Pointer a, None), h[a := (case h ! a of ReviewObject rv x \<Rightarrow> ReviewObject rv True
          | SelfReviewObject rv x \<Rightarrow> SelfReviewObject rv True | ob \<Rightarrow> ob)])
   | _ \<Rightarrow> ((Nil, None), h))"

theorem AccessReview_over_fakes_witness:
  "fst (client_AccessReview (clientOver False) (withReviews allowing allowing) ''robocop'' [''detroit'', ''police'']
     ''get'' ''tenantID'' ''resource'' ''group.me.io'' []) = Inr True"
proof -
  obtain r d where run: "client_AccessReview (clientOver False) (withReviews allowing allowing) ''robocop''
      [''detroit'', ''police''] ''get'' ''tenantID'' ''resource'' ''group.me.io'' [] = (r, d)" by fastforce
  show ?thesis
    using AccessReview_over_fakes [OF run refl, of "Pointer 0" None
        "[ReviewObject \<lparr>sarUser = ''robocop'', sarGroups = [''detroit'', ''police''],
          sarAttributes = \<lparr>raNamespace = [], raVerb = ''get'', raGroup = ''group.me.io'',
            raResource = ''tenantID'', raName = ''resource''\<rparr>\<rparr> True]" True] run
    by (simp add: allowing_def allowedAt_def)
qed

end
