(* ===== verification/Spec2Isabelle.thy ===== *)
theory Spec2Isabelle
  imports Matcher_Heap Main_Program Serving Fake_Client
begin

text \<open>
  A verification development for opa-openshift, the OPA-compatible authorization service that
  answers "may this subject read or write this tenant's data?" with Kubernetes access reviews.

  \<^bold>\<open>The program.\<close> main reads the flags, builds the cache, and runs two HTTP servers. The handler of
  the public one decodes a request; from it and the configuration it derives an API group, a verb,
  a label matcher and the namespaces of the query. The authorizer looks the request up in the
  cache under a key made of all its fields, and otherwise asks the API server, through a client
  made for the token of the request: a cluster-wide access review first, then, where needed, the
  list of the user's projects or one review for each namespace. The response is a boolean, or the
  JSON of a label matcher for the granted namespaces; it is written to the cache and to the client.

  \<^bold>\<open>The theories\<close>, each with the file under src/ that it models:

  \<^item> Go_Prelude, Go_Utf8, Go_Json, Go_Json_Lemmas, Go_Path, Go_Regexp, Go_Sha256: what the program
    uses of Go's standard library, executable. Errors are the datatype \<open>go_error\<close>, a call that may
    fail returns \<open>go_error + 'a\<close>. JSON is parsed and rendered as encoding/json does it (escapes,
    invalid UTF-8, nesting limit, duplicate members); patterns are matched by derivatives and
    proved against their language; SHA-256 is the algorithm itself.
  \<^item> Matcher (internal/config/matcher.go): the label matcher as a value: ToMatcher, ForRequest, the
    migration from one namespace label to the other.
  \<^item> Matcher_Heap (the same file): the same functions on a store of slices, maps and objects, with
    slices.Clone and slices.Delete as they work in place. All requests share the configured matcher;
    the store shows that serving one never changes what the next one gets.
  \<^item> Config (internal/config/config.go, tls.go): the flags, ParseFlags and its errors, the TLS
    configuration of a server.
  \<^item> Cache_Key (internal/authorizer/cache.go): the key of a request.
  \<^item> Response (internal/authorizer/authorizer.go, the two constructors of a response): building the
    response and reading it back.
  \<^item> Cache (internal/cache): the interface Cacher, its in-memory and its memcached implementation,
    the metrics collector. The locale \<open>response_cache\<close> is the contract of the interface, and both
    implementations are interpretations of it.
  \<^item> Openshift_Client (internal/openshift/client.go): the configuration, the clientsets and the
    three calls of the API server. The locale \<open>stable_client\<close> is a client of an API server with a
    fixed policy; the client of the code interprets it.
  \<^item> Authorizer and Authorizer_Spec (internal/authorizer/authorizer.go): Authorize and authorizeInner
    on a pair of the state of the cache and that of the API server; then the policy \<open>decide\<close> they
    implement, the traces that back a grant, and the use of the cache.
  \<^item> Request and Handler (internal/handler/handler.go): decoding the body, and the handler as a
    function from a request and the two states to what is written and the new states.
  \<^item> Response_Types: the shape of the answers, with no assumption at all.
  \<^item> Interaction (the same file): authorizeInner cut at every single call of the API server, as a tree
    of calls and continuations, proved to be the same code for every client; what is left of it after
    some recorded calls, and the plan these calls follow.
  \<^item> Serving (the same file, as net/http runs it): concurrent requests. \<open>threadStep\<close> is a thread's next
    step: the lookup, one call of the API server, or the write; \<open>serverStep\<close> interleaves the steps of
    all threads with arrivals, with changes of the policy and with the loss of cache entries. A thread
    whose call never returns takes no further step. The state adds to the two states the phase of
    each thread and the calls made so far with their answers, which only the statements read.
  \<^item> Main_Program (main.go, internal/instrumentation/instrument.go): start-up.

  \<^item> Counterfeiter, Fakes and Fake_Client (internal/external/k8s/k8sfakes, internal/external/ocp/ocpfakes):
    the test doubles. Counterfeiter is the template all their methods are generated from, with the
    locales \<open>fake_fields\<close> and \<open>logged_method\<close>, which every method of the six fakes interprets; Fake_Client
    runs the client of the API server over the doubles, connected as its tests connect them.

  \<^bold>\<open>What is shown.\<close> Requests: the handler acts on valid ones only, answers once, and its answer is
  that of the policy (Handler); decoding inverts encoding (Request). Authorization: refinement of the
  policy, every grant backed by a positive review of the same run, errors never cached, the order of
  groups irrelevant (Authorizer_Spec). Concurrency: whatever is answered was
  given to a thread of the same run for a request with the same key, as what authorizeInner returns on
  the answers that thread got from the API server, and is the policy's decision while the policy does
  not change; left alone, a thread does exactly what Authorize does; a thread takes finitely many
  steps and its calls follow a plan; one whose calls return gets the answer Authorize would give
  (Serving). Keys: for requests
  without separators in their fields, equal keys mean equal fields, and equal concatenations of the
  token, the user and the groups and of the keys of the matcher, up to SHA-256; what a key does not
  tell apart is shown as well (Cache_Key). Counters: what the collector exports is the number of
  lookups that hit and that missed (Cache). Matchers: isolation and refinement of the pointer program
  (Matcher_Heap). Start-up: what an accepted configuration guarantees, TLS that fails closed, the
  path of the endpoint, the handlers, checks and collectors that are set up (Config, Main_Program).
  Test doubles: which answer a call gets, that the recorded invocations are complete, and the tests of
  the client for all inputs (Fakes, Fake_Client).

  The last section of this theory puts the components together: the first request that a program
  started with an in-memory cache gets is answered as its policy says (\<open>program_answers_by_policy\<close>).

  \<^bold>\<open>Bounds and recursion.\<close> Every loop of the program runs over a list or a string and is a total
  function. Only the parser of JSON, which belongs to Go's library, takes fuel: twice the length of
  the text and one more, and \<open>parse_fuel\<close> shows that more never changes a result; like encoding/json
  it also stops at 10000 nested values. The widths that matter are kept: int32 and time.Duration
  are words of 32 and 64 bits, SHA-256 works on words of 32 bits, the counters of the cache on 64.

  \<^bold>\<open>Parameters.\<close> Code outside the repository is an argument of the definitions that use it, with what
  the program relies on as a named hypothesis: labels.NewMatcher (\<open>newMatcherContract\<close>), the JSON form
  of OPA's response struct (\<open>codecKeeps\<close>), ttlcache and telemeter's memcached client (\<open>ttlContract\<close>,
  \<open>mcContract\<close>: they may lose entries, and never return one that was not written; \<open>countsLookups\<close>:
  the counters of ttlcache), the clientsets and
  constructors of client-go, the loader of kubeconfig files, and the API server (\<open>apiContract\<close>). Each
  hypothesis is shown to hold of a concrete instance. pflag's parser, crypto/tls and the order in
  which UnsortedList enumerates a set are parameters without any hypothesis.

  \<^bold>\<open>Not modelled.\<close> Log lines, since nothing depends on them; the version variables, set by the
  linker; the run group, the HTTP servers, the internal handler, the health checks, the registry and
  promhttp, which are libraries (what the program hands them is modelled, in order); deadlines and
  cancellation, since the program only passes contexts that are never cancelled; the Go interfaces in internal/external, which only repeat signatures
  of client-go; the mutexes of the test doubles; the scripts and manifests of the integration test.
\<close>

section \<open>From the command line to the answer\<close>

text \<open>A new ttlcache has no entry.\<close>

definition startsEmpty :: "(ttlOptions \<Rightarrow> 'i ttlcache \<times> 'i) \<Rightarrow> bool" where
  "startsEmpty ttlcache_New \<longleftrightarrow>
     (\<forall>opts k. fst (tcGet (fst (ttlcache_New opts)) (snd (ttlcache_New opts)) k) = None)"

lemma main_start_cache_misses:
  assumes "main_start env = Returned (Inr prog)" "progCache prog = InMemory c cs"
    and "startsEmpty (main_ttlcache_New env)"
  shows "\<forall>k. \<exists>resp cs'. cacheGet c cs k = (Inr (resp, False), cs')"
proof -
  from assms(1,2) obtain expire where "NewInMemoryCache (mainCodec env) (main_ttlcache_New env) expire = (c, cs)"
    by (auto simp: main_start_Inr newCache_def split: if_splits prod.splits)
  then obtain tc opts where new: "main_ttlcache_New env opts = (tc, cs)" and c: "c = inmemory (mainCodec env) tc"
    by (auto simp: NewInMemoryCache_def split: prod.splits)
  have "fst (tcGet tc cs k) = None" for k
    using assms(3) new unfolding startsEmpty_def by (metis fst_conv snd_conv)
  then show ?thesis
    unfolding c by (auto simp: inmemory_def inmemory_Get_def split: prod.splits option.splits)
      (metis fst_conv option.simps(3))
qed

text \<open>The body of a request, decoded, makes it valid and fixes what the handler reads.\<close>

lemma requestJson_valid:
  assumes "Method r = ''POST''"
    and "Body r = Inr (render (requestJson groups permission resource subject tenant sels wild meta))"
    and "\<forall>s \<in> set ([permission, resource, subject, tenant] @ groups). validUtf8 s"
    and "\<forall>p \<in> set sels. validUtf8 (fst p) \<and> (\<forall>v \<in> set (snd p). validUtf8 v)" "distinct (map fst sels)"
    and "Mappings cfg tenant = Some apiGroup" "resource \<noteq> []" "permission \<in> {Read, Write}"
    and "Header r xForwardedAccessTokenHeader \<noteq> []"
  obtains input where "validRequest cfg r input apiGroup" "Permission input = permission"
    "Resource input = resource" "Subject input = subject" "Tenant input = tenant" "elems (Groups input) = groups"
    "Extras input = \<lparr>Selectors = sels, WildcardSelectors = wild, MetadataOnly = meta\<rparr>"
proof -
  from unmarshalRequest_requestJson [OF assms(3-5)] obtain g where
    "unmarshalRequest (render (requestJson groups permission resource subject tenant sels wild meta))
      = Some \<lparr>req_Input = \<lparr>Groups = g, Permission = permission, Resource = resource,
          Subject = subject, Tenant = tenant,
          Extras = \<lparr>Selectors = sels, WildcardSelectors = wild, MetadataOnly = meta\<rparr>\<rparr>\<rparr>"
    "elems g = groups" by blast
  with assms show ?thesis
    by (intro that [of "\<lparr>Groups = g, Permission = permission, Resource = resource, Subject = subject,
          Tenant = tenant, Extras = \<lparr>Selectors = sels, WildcardSelectors = wild, MetadataOnly = meta\<rparr>\<rparr>"])
      (auto simp: validRequest_def)
qed

text \<open>
  C1: from the command line to the answer. A program starts with its cache in memory. The
  first request posts the JSON text of some groups, permission, resource, subject, tenant and
  selectors, with a token; the tenant is mapped to an API group, the selectors are acceptable, and
  the API server answers by a fixed policy. Then the program writes the response for that policy's
  decision: reviewed for this subject and these groups with the verb of the permission, the tenant
  as resource and the resource as its name, over all the namespaces of the selectors, with the
  matcher that the flags give to this tenant, these groups and these selectors.
\<close>

theorem program_answers_by_policy:
  assumes "main_start env = Returned (Inr prog)" "progCache prog = InMemory c cs"
    and "startsEmpty (main_ttlcache_New env)" "cfg = progConfig prog"
    and "Method r = ''POST''"
      "Body r = Inr (render (requestJson groups permission resource subject tenant sels wild meta))"
      "Header r xForwardedAccessTokenHeader = token" "token \<noteq> []" "writeError r = None"
    and "\<forall>s \<in> set ([permission, resource, subject, tenant] @ groups). validUtf8 s"
      "\<forall>p \<in> set sels. validUtf8 (fst p) \<and> (\<forall>v \<in> set (snd p). validUtf8 v)" "distinct (map fst sels)"
    and "Mappings cfg tenant = Some apiGroup" "resource \<noteq> []" "permission \<in> {Read, Write}"
    and "\<not> (wild \<and> Keys (ForRequest (ToMatcher (Opa cfg)) tenant groups) \<noteq> [])"
      "\<not> (opa_ViaQToOTELMigration (Opa cfg) \<and> hasValues sels kubernetes_namespace_name
          \<and> hasValues sels k8s_namespace_name)"
    and "NewClient (envConfig henv) (envLib henv) wt (KubeconfigPath cfg) token (SSAR (Opa cfg)) = Inr oc"
      "apiContract api oc" "up api a" "newMatcherContract (envNewMatcher henv)"
    and "verb = (if permission = Read then GetVerb else CreateVerb)"
      "m = requestMatcher (ToMatcher (Opa cfg)) (opa_ViaQToOTELMigration (Opa cfg)) tenant groups sels"
      "d = decide (clientGrants api oc a subject (sort_Strings groups) verb tenant resource apiGroup)
        (map projectName (projects api a)) m verb (envUnsortedList henv (selectorNamespaces [] sels)) meta"
    and "handle henv c wt cfg (cs, a) r = (evs, st')"
  shows "evs = writeResponse (envCodec henv) None (encodeDecision d)
    \<or> (\<exists>keys op ns k e. d = Restrict keys op ns \<and> envNewMatcher henv MatchRegexp k (join ''|'' ns) = Inl e)"
proof -
  have hdr: "Header r xForwardedAccessTokenHeader \<noteq> []" using assms(7,8) by simp
  obtain input where i: "validRequest cfg r input apiGroup" "Permission input = permission"
    "Resource input = resource" "Subject input = subject" "Tenant input = tenant" "elems (Groups input) = groups"
    "Extras input = \<lparr>Selectors = sels, WildcardSelectors = wild, MetadataOnly = meta\<rparr>"
    by (rule requestJson_valid [OF assms(5,6,10-15) hdr])
  have accepted: "\<not> refusedSelectors cfg input"
    using assms(16,17) i by (simp add: refusedSelectors_def)
  have token: "requestToken cfg r = token" using assms(7,8) by (simp add: requestToken_def)
  have verb: "requestVerb input = verb" using assms(22) i(2) by (simp add: requestVerb_def)
  show ?thesis
    by (rule handle_policy [OF assms(25) i(1) accepted assms(9) _ assms(19-21)
          main_start_cache_misses [OF assms(1-3)]])
      (use assms(18,23,24) i token verb in simp_all)
qed

lemma exampleMain_config:
  "\<exists>prog. main_start exampleMainEnv = Returned (Inr prog)
     \<and> progCache prog = InMemory (inmemory opaCodec mapTtlcache) Map.empty
     \<and> progConfig prog = flagConfig (mainParse exampleMainEnv flagDefaults) AllowInfo
         [''application'' \<mapsto> ''loki.grafana.com'', ''audit'' \<mapsto> ''loki.grafana.com'']"
proof -
  have "Match validPackage ''lokistack''" "Match validRule ''allow''"
    unfolding Match_validPackage Match_validRule
    by (simp_all add: isIdent_def inClass_def startClass_def wordClass_def less_eq_char_def)
  then show ?thesis
    by (simp add: main_start_def exampleMainEnv_def ParseFlags_def exampleFlags_def flagDefaults_def
        parseLogLevel_def flagConfig_def newLivenessCheck_def publicServer_def internalServer_def
        NewServerConfig_def newCache_def NewInMemoryCache_def Let_def)
qed

theorem program_answers_by_policy_witness:
  "\<exists>cfg op. fst (handle exampleHandlerEnv (inmemory opaCodec mapTtlcache) () cfg (Map.empty, ()) exampleRequest)
     = writeResponse opaCodec None (encodeDecision (Restrict [kubernetes_namespace_name] op [''ns-1'']))"
proof -
  obtain prog where prog: "main_start exampleMainEnv = Returned (Inr prog)"
    "progCache prog = InMemory (inmemory opaCodec mapTtlcache) Map.empty"
    and cfg: "progConfig prog = flagConfig (mainParse exampleMainEnv flagDefaults) AllowInfo
         [''application'' \<mapsto> ''loki.grafana.com'', ''audit'' \<mapsto> ''loki.grafana.com'']"
    using exampleMain_config by blast
  let ?cfg = "progConfig prog"
  let ?sels = "[(kubernetes_namespace_name, [''ns-2'', ''ns-1''])]"
  note unfold_cfg = cfg flagConfig_def exampleMainEnv_def exampleFlags_def flagDefaults_def
  have empty: "startsEmpty (main_ttlcache_New exampleMainEnv)"
    by (simp add: startsEmpty_def exampleMainEnv_def mapTtlcache_def)
  have req: "Method exampleRequest = ''POST''" "Body exampleRequest = Inr (render (requestJson [''dev''] ''read''
      ''logs'' ''joe'' ''application'' ?sels False False))"
    "Header exampleRequest xForwardedAccessTokenHeader = ''tok''" "writeError exampleRequest = None"
    by (simp_all add: exampleRequest_def)
  have utf8: "\<forall>s \<in> set ([''read'', ''logs'', ''joe'', ''application''] @ [''dev'']). validUtf8 s"
    "\<forall>p \<in> set ?sels. validUtf8 (fst p) \<and> (\<forall>v \<in> set (snd p). validUtf8 v)"
    by (simp_all add: utf8Size_ascii)
  have conf: "Mappings ?cfg ''application'' = Some ''loki.grafana.com''" "SSAR (Opa ?cfg) = False"
    "KubeconfigPath ?cfg = []" "\<not> opa_ViaQToOTELMigration (Opa ?cfg)"
    by (simp_all add: unfold_cfg)
  have client: "NewClient (envConfig exampleHandlerEnv) (envLib exampleHandlerEnv) () (KubeconfigPath ?cfg) ''tok''
      (SSAR (Opa ?cfg)) = Inr exampleClient"
    by (simp add: NewClient_Inr exampleHandlerEnv_def conf getConfig_def exampleEnv_def) (simp add: exampleClient_def)
  let ?m = "requestMatcher (ToMatcher (Opa ?cfg)) (opa_ViaQToOTELMigration (Opa ?cfg)) ''application'' [''dev''] ?sels"
  have m: "Keys ?m = [kubernetes_namespace_name]"
    by (simp add: requestMatcher_def ForRequest_eq exempt_def unfold_cfg Keys_ToMatcher ToMatcher_def
        prepareMap_def IsEmpty_def matchersSeparator_def)
  have d: "decide (clientGrants exampleApi exampleClient () ''joe'' (sort_Strings [''dev'']) GetVerb ''application''
      ''logs'' ''loki.grafana.com'') (map projectName (projects exampleApi ())) ?m GetVerb
      (envUnsortedList exampleHandlerEnv (selectorNamespaces [] ?sels)) False
    = Restrict [kubernetes_namespace_name] (MatcherOp ?m) [''ns-1'']"
    using m by (simp add: decide_def restrict_def clientGrants_def exampleClient_def
        exampleApi_def exampleHandlerEnv_def GetVerb_def CreateVerb_def Let_def)
  obtain evs st' where run: "handle exampleHandlerEnv (inmemory opaCodec mapTtlcache) () ?cfg (Map.empty, ())
      exampleRequest = (evs, st')" by (metis surj_pair)
  have facts: "up exampleApi ()" "newMatcherContract (envNewMatcher exampleHandlerEnv)"
    by (simp_all add: exampleApi_def exampleHandlerEnv_def newMatcherContract_any)
  have "evs = writeResponse (envCodec exampleHandlerEnv) None
      (encodeDecision (Restrict [kubernetes_namespace_name] (MatcherOp ?m) [''ns-1'']))
    \<or> (\<exists>keys op ns k e. Restrict [kubernetes_namespace_name] (MatcherOp ?m) [''ns-1''] = Restrict keys op ns
        \<and> envNewMatcher exampleHandlerEnv MatchRegexp k (join ''|'' ns) = Inl e)"
    by (rule program_answers_by_policy [OF prog empty refl req(1-3) _ req(4) utf8 _ conf(1) _ _ _ _ client
          apiContract_example facts refl refl _ run])
      (use conf(4) d in \<open>simp_all add: Read_def\<close>)
  moreover have "envCodec exampleHandlerEnv = opaCodec" "envNewMatcher exampleHandlerEnv MatchRegexp k v \<noteq> Inl e" for k v e
    by (simp_all add: exampleHandlerEnv_def anyNewMatcher_def)
  ultimately have "fst (handle exampleHandlerEnv (inmemory opaCodec mapTtlcache) () ?cfg (Map.empty, ()) exampleRequest)
     = writeResponse opaCodec None (encodeDecision (Restrict [kubernetes_namespace_name] (MatcherOp ?m) [''ns-1'']))"
    unfolding run by (metis fst_conv)
  then show ?thesis by blast
qed

end
